theory Spec2Isabelle
  imports Main "HOL-Library.AList"
begin

section \<open>Data model of the game server\<close>

text \<open>
  The server keeps two insertion-ordered JavaScript \<open>Map\<close>s, \<open>rooms\<close> (room code to room
  object) and \<open>players\<close> (socket id to player object). A player object is created once, in
  \<open>createRoom\<close> or \<open>joinRoom\<close>, and the same object is then referenced from the global
  \<open>players\<close> map and from the \<open>players\<close> map of its room; the handlers mutate it through
  either reference. The model therefore keeps player objects in an explicit store
  (\<open>heap\<close>, a list indexed by address; allocation appends) and both maps hold addresses.

  A JavaScript \<open>Map\<close> is an association list in insertion order: \<open>get\<close> is \<open>map_of\<close>,
  \<open>set\<close> is \<open>AList.update\<close> (overwrite in place, or append a new key at the end),
  \<open>delete\<close> is \<open>AList.delete\<close>, \<open>size\<close> is \<open>length\<close> and \<open>clear()\<close> yields \<open>[]\<close>.
  Room objects are referenced from the registry only, so they are stored by value.
  Socket ids, room codes, names and ids sent by clients are strings. The numeric field
  \<open>score\<close> only ever holds 0 plus multiples of 100 and is an \<open>int\<close>.
\<close>

type_synonym addr = nat

datatype role_t = Shadow | Signal

datatype phase = Lobby | Assigning | Discussion | Results

record word_pair =
  shadow :: string
  signal :: string

text \<open>The player object; \<open>pid\<close> is the field \<open>id\<close>, \<open>null\<close> is \<open>None\<close>.\<close>

record player_obj =
  pid :: string
  name :: string
  room :: string
  role :: "role_t option"
  word :: "string option"
  isReady :: bool
  score :: int

text \<open>The object stored in \<open>room.results\<close> by \<open>calculateResults\<close>. The source computes
  \<open>shadowCaught\<close> as \<open>eliminatedPlayer && eliminatedPlayer.role === "shadow"\<close>, which is
  \<open>undefined\<close> when the eliminated id is no member; only its truthiness is used, so it is
  a \<open>bool\<close> here.\<close>

record tally =
  eliminatedPlayerId :: "string option"
  shadowCaught :: bool
  voteCount :: "(string \<times> nat) list"

text \<open>The room object; \<open>results\<close> is absent until the first tally.\<close>

record room_obj =
  code :: string
  players :: "(string \<times> addr) list"
  gameState :: phase
  round :: nat
  maxPlayers :: nat
  hostId :: string
  wordPair :: "word_pair option"
  votes :: "(string \<times> string) list"
  revealedPlayers :: "string list"
  results :: "tally option"

text \<open>The server state: the two global maps (\<open>pindex\<close> is the global \<open>players\<close> map) and
  the store of player objects.\<close>

record server_state =
  rooms :: "(string \<times> room_obj) list"
  pindex :: "(string \<times> addr) list"
  heap :: "player_obj list"

definition init :: server_state where
  "init = \<lparr>rooms = [], pindex = [], heap = []\<rparr>"

text \<open>The catalogue of word pairs. The eighth entry of the source file holds the bytes
  \<open>53 C3 83 C2 A9 61 6E 63 65\<close>.\<close>

definition WORD_PAIRS :: "word_pair list" where
  "WORD_PAIRS =
    [\<lparr>shadow = ''Vampire'', signal = ''Garlic''\<rparr>,
     \<lparr>shadow = ''Alien'', signal = ''Spaceship''\<rparr>,
     \<lparr>shadow = ''Impostor'', signal = ''Crewmate''\<rparr>,
     \<lparr>shadow = ''Werewolf'', signal = ''Silver''\<rparr>,
     \<lparr>shadow = ''Robot'', signal = ''Human''\<rparr>,
     \<lparr>shadow = ''Ghost'', signal = ''S'' @ [CHR 0xC3, CHR 0x83, CHR 0xC2, CHR 0xA9] @ ''ance''\<rparr>,
     \<lparr>shadow = ''Spy'', signal = ''Password''\<rparr>,
     \<lparr>shadow = ''Doppelganger'', signal = ''Mirror''\<rparr>]"

text \<open>\<open>Set.prototype.add\<close> on an insertion-ordered set.\<close>

definition set_add :: "'a \<Rightarrow> 'a list \<Rightarrow> 'a list" where
  "set_add x xs = (if x \<in> set xs then xs else xs @ [x])"

section \<open>Event handlers\<close>

text \<open>Every handler takes the id of the calling socket first. The outcome of
  \<open>generateRoomCode()\<close> is the parameter \<open>roomCode\<close> of \<open>createRoom\<close>; the two random
  indices drawn by \<open>startGame\<close> are its parameters \<open>shadowPlayerIndex\<close> and \<open>wordIndex\<close>.
  Notifications sent to clients do not change the state and are left out, except the
  \<open>error\<close> event of \<open>joinRoom\<close>, which is its first result.\<close>

definition newPlayer :: "string \<Rightarrow> string \<Rightarrow> string \<Rightarrow> player_obj" where
  "newPlayer sock playerName roomCode =
    \<lparr>pid = sock, name = playerName, room = roomCode, role = None, word = None,
     isReady = False, score = 0\<rparr>"

definition createRoom :: "string \<Rightarrow> string \<Rightarrow> string \<Rightarrow> server_state \<Rightarrow> server_state" where
  "createRoom sock roomCode playerName st =
    (let a = length (heap st);
         r = \<lparr>code = roomCode, players = [], gameState = Lobby, round = 1, maxPlayers = 6,
              hostId = sock, wordPair = None, votes = [], revealedPlayers = [],
              results = None\<rparr>
     in st\<lparr>rooms := AList.update roomCode (r\<lparr>players := AList.update sock a (players r)\<rparr>)
                       (rooms st),
           pindex := AList.update sock a (pindex st),
           heap := heap st @ [newPlayer sock playerName roomCode]\<rparr>)"

text \<open>The messages of the \<open>error\<close> event: \<open>"Room not found"\<close>, \<open>"Room is full"\<close> and
  \<open>"Game already in progress"\<close>.\<close>

datatype error = RoomNotFound | RoomFull | GameInProgress

definition joinRoom ::
  "string \<Rightarrow> string \<Rightarrow> string \<Rightarrow> server_state \<Rightarrow> error option \<times> server_state" where
  "joinRoom sock roomCode playerName st =
    (case map_of (rooms st) roomCode of
       None \<Rightarrow> (Some RoomNotFound, st)
     | Some r \<Rightarrow>
         if maxPlayers r \<le> length (players r) then (Some RoomFull, st)
         else if gameState r \<noteq> Lobby then (Some GameInProgress, st)
         else
           (let a = length (heap st)
            in (None,
                st\<lparr>rooms := AList.update roomCode
                               (r\<lparr>players := AList.update sock a (players r)\<rparr>) (rooms st),
                   pindex := AList.update sock a (pindex st),
                   heap := heap st @ [newPlayer sock playerName roomCode]\<rparr>)))"

text \<open>The body of the first \<open>forEach\<close> of \<open>startGame\<close>, over the array of player objects
  taken from the room before the loop: it writes role, word and readiness into the
  object and stores the object again in the room's map and in the global map.\<close>

fun assignRoles ::
  "nat \<Rightarrow> word_pair \<Rightarrow> addr list \<Rightarrow> nat \<Rightarrow>
   player_obj list \<times> (string \<times> addr) list \<times> (string \<times> addr) list \<Rightarrow>
   player_obj list \<times> (string \<times> addr) list \<times> (string \<times> addr) list" where
  "assignRoles shadowPlayerIndex wp [] index acc = acc"
| "assignRoles shadowPlayerIndex wp (a # as) index (h, rp, ix) =
    (let p = (if index = shadowPlayerIndex
              then (h ! a)\<lparr>role := Some Shadow, word := Some (shadow wp)\<rparr>
              else (h ! a)\<lparr>role := Some Signal, word := Some (signal wp)\<rparr>)\<lparr>isReady := False\<rparr>
     in assignRoles shadowPlayerIndex wp as (Suc index)
          (h[a := p], AList.update (pid p) a rp, AList.update (pid p) a ix))"

definition startGame :: "string \<Rightarrow> nat \<Rightarrow> nat \<Rightarrow> server_state \<Rightarrow> server_state" where
  "startGame sock shadowPlayerIndex wordIndex st =
    (case map_of (pindex st) sock of
       None \<Rightarrow> st
     | Some pa \<Rightarrow>
         (case map_of (rooms st) (room (heap st ! pa)) of
            None \<Rightarrow> st
          | Some r \<Rightarrow>
              if hostId r \<noteq> sock then st
              else
                (let playersArray = map snd (players r);
                     wp = WORD_PAIRS ! wordIndex;
                     (h, rp, ix) = assignRoles shadowPlayerIndex wp playersArray 0
                                     (heap st, players r, pindex st)
                 in st\<lparr>rooms := AList.update (room (heap st ! pa))
                                  (r\<lparr>wordPair := Some wp, gameState := Assigning,
                                     players := rp\<rparr>) (rooms st),
                       pindex := ix,
                       heap := h\<rparr>)))"

definition playerReady :: "string \<Rightarrow> server_state \<Rightarrow> server_state" where
  "playerReady sock st =
    (case map_of (pindex st) sock of
       None \<Rightarrow> st
     | Some pa \<Rightarrow>
         (case map_of (rooms st) (room (heap st ! pa)) of
            None \<Rightarrow> st
          | Some r \<Rightarrow>
              (let h = (heap st)[pa := (heap st ! pa)\<lparr>isReady := True\<rparr>];
                   r1 = r\<lparr>players := AList.update sock pa (players r)\<rparr>;
                   allReady = list_all (\<lambda>(k, a). isReady (h ! a)) (players r1)
               in if allReady
                  then st\<lparr>rooms := AList.update (room (heap st ! pa))
                                     (r1\<lparr>gameState := Discussion, votes := []\<rparr>) (rooms st),
                          heap := h\<rparr>
                  else st\<lparr>rooms := AList.update (room (heap st ! pa)) r1 (rooms st),
                          heap := h\<rparr>)))"

text \<open>\<open>calculateResults\<close>: the first loop counts the votes per target into a new map, the
  second scans that map for the largest count, the third updates the scores.\<close>

fun countVotes :: "string list \<Rightarrow> (string \<times> nat) list \<Rightarrow> (string \<times> nat) list" where
  "countVotes [] vc = vc"
| "countVotes (targetId # ts) vc =
    countVotes ts
      (AList.update targetId ((case map_of vc targetId of None \<Rightarrow> 0 | Some n \<Rightarrow> n) + 1) vc)"

fun findMax :: "(string \<times> nat) list \<Rightarrow> nat \<times> string option \<Rightarrow> nat \<times> string option" where
  "findMax [] acc = acc"
| "findMax ((playerId, n) # vs) (maxVotes, eliminated) =
    (if maxVotes < n then findMax vs (n, Some playerId)
     else findMax vs (maxVotes, eliminated))"

fun updateScores :: "bool \<Rightarrow> addr list \<Rightarrow> player_obj list \<Rightarrow> player_obj list" where
  "updateScores caught [] h = h"
| "updateScores caught (a # as) h =
    updateScores caught as
      (if caught \<and> role (h ! a) = Some Signal then h[a := (h ! a)\<lparr>score := score (h ! a) + 100\<rparr>]
       else if \<not> caught \<and> role (h ! a) = Some Shadow
            then h[a := (h ! a)\<lparr>score := score (h ! a) + 200\<rparr>]
       else h)"

definition calculateResults :: "player_obj list \<Rightarrow> room_obj \<Rightarrow> player_obj list \<times> room_obj" where
  "calculateResults h r =
    (let vc = countVotes (map snd (votes r)) [];
         (maxVotes, eliminated) = findMax vc (0, None);
         eliminatedPlayer = (case eliminated of None \<Rightarrow> None | Some e \<Rightarrow> map_of (players r) e);
         caught = (case eliminatedPlayer of None \<Rightarrow> False
                   | Some a \<Rightarrow> role (h ! a) = Some Shadow)
     in (updateScores caught (map snd (players r)) h,
         r\<lparr>results := Some \<lparr>eliminatedPlayerId = eliminated, shadowCaught = caught,
                             voteCount = vc\<rparr>\<rparr>))"

definition submitVote :: "string \<Rightarrow> string \<Rightarrow> server_state \<Rightarrow> server_state" where
  "submitVote sock targetPlayerId st =
    (case map_of (pindex st) sock of
       None \<Rightarrow> st
     | Some pa \<Rightarrow>
         (case map_of (rooms st) (room (heap st ! pa)) of
            None \<Rightarrow> st
          | Some r \<Rightarrow>
              if gameState r \<noteq> Discussion then st
              else
                (let r1 = r\<lparr>votes := AList.update sock targetPlayerId (votes r)\<rparr>
                 in if length (votes r1) = length (players r1)
                    then (let (h, r2) = calculateResults (heap st) (r1\<lparr>gameState := Results\<rparr>)
                          in st\<lparr>rooms := AList.update (room (heap st ! pa)) r2 (rooms st),
                                heap := h\<rparr>)
                    else st\<lparr>rooms := AList.update (room (heap st ! pa)) r1 (rooms st)\<rparr>)))"

fun resetPlayers :: "addr list \<Rightarrow> player_obj list \<Rightarrow> player_obj list" where
  "resetPlayers [] h = h"
| "resetPlayers (a # as) h =
    resetPlayers as (h[a := (h ! a)\<lparr>role := None, word := None, isReady := False\<rparr>])"

definition nextRound :: "string \<Rightarrow> server_state \<Rightarrow> server_state" where
  "nextRound sock st =
    (case map_of (pindex st) sock of
       None \<Rightarrow> st
     | Some pa \<Rightarrow>
         (case map_of (rooms st) (room (heap st ! pa)) of
            None \<Rightarrow> st
          | Some r \<Rightarrow>
              if hostId r \<noteq> sock then st
              else st\<lparr>rooms := AList.update (room (heap st ! pa))
                                 (r\<lparr>round := round r + 1, gameState := Lobby,
                                    revealedPlayers := [], votes := []\<rparr>) (rooms st),
                      heap := resetPlayers (map snd (players r)) (heap st)\<rparr>))"

definition revealRole :: "string \<Rightarrow> string \<Rightarrow> server_state \<Rightarrow> server_state" where
  "revealRole sock targetPlayerId st =
    (case map_of (pindex st) sock of
       None \<Rightarrow> st
     | Some pa \<Rightarrow>
         (case map_of (rooms st) (room (heap st ! pa)) of
            None \<Rightarrow> st
          | Some r \<Rightarrow>
              if hostId r \<noteq> sock then st
              else st\<lparr>rooms := AList.update (room (heap st ! pa))
                                 (r\<lparr>revealedPlayers := set_add targetPlayerId (revealedPlayers r)\<rparr>)
                                 (rooms st)\<rparr>))"

text \<open>\<open>leaveRoom\<close> and the \<open>disconnect\<close> handler are two separate functions of the source.
  On a non-empty map, \<open>room.players.keys().next().value\<close> is the key of the first entry.\<close>

definition leaveRoom :: "string \<Rightarrow> server_state \<Rightarrow> server_state" where
  "leaveRoom sock st =
    (case map_of (pindex st) sock of
       None \<Rightarrow> st
     | Some pa \<Rightarrow>
         (case map_of (rooms st) (room (heap st ! pa)) of
            None \<Rightarrow> st
          | Some r \<Rightarrow>
              (let r1 = r\<lparr>players := AList.delete sock (players r)\<rparr>;
                   st1 = st\<lparr>pindex := AList.delete sock (pindex st)\<rparr>
               in (case players r1 of
                     [] \<Rightarrow> st1\<lparr>rooms := AList.delete (room (heap st ! pa)) (rooms st)\<rparr>
                   | (newHost, _) # _ \<Rightarrow>
                       st1\<lparr>rooms := AList.update (room (heap st ! pa))
                                      (if hostId r1 = sock then r1\<lparr>hostId := newHost\<rparr> else r1)
                                      (rooms st)\<rparr>))))"

definition disconnect :: "string \<Rightarrow> server_state \<Rightarrow> server_state" where
  "disconnect sock st =
    (case map_of (pindex st) sock of
       None \<Rightarrow> st
     | Some pa \<Rightarrow>
         (case map_of (rooms st) (room (heap st ! pa)) of
            None \<Rightarrow> st
          | Some r \<Rightarrow>
              (let r1 = r\<lparr>players := AList.delete sock (players r)\<rparr>;
                   st1 = st\<lparr>pindex := AList.delete sock (pindex st)\<rparr>
               in (case players r1 of
                     [] \<Rightarrow> st1\<lparr>rooms := AList.delete (room (heap st ! pa)) (rooms st)\<rparr>
                   | (newHost, _) # _ \<Rightarrow>
                       st1\<lparr>rooms := AList.update (room (heap st ! pa))
                                      (if hostId r1 = sock then r1\<lparr>hostId := newHost\<rparr> else r1)
                                      (rooms st)\<rparr>))))"

section \<open>Snapshot projection\<close>

record player_data =
  pd_id :: string
  pd_name :: string
  pd_isReady :: bool
  pd_score :: int
  pd_role :: "role_t option"
  pd_word :: "string option"

record room_data =
  rd_code :: string
  rd_players :: "player_data list"
  rd_gameState :: phase
  rd_round :: nat
  rd_maxPlayers :: nat
  rd_hostId :: string
  rd_wordPair :: "word_pair option"
  rd_votes :: nat
  rd_revealedPlayers :: "string list"

definition playerData :: "room_obj \<Rightarrow> player_obj \<Rightarrow> player_data" where
  "playerData r p =
    \<lparr>pd_id = pid p, pd_name = name p, pd_isReady = isReady p, pd_score = score p,
     pd_role = (if gameState r = Results \<or> pid p \<in> set (revealedPlayers r) then role p
                else None),
     pd_word = (if gameState r = Results \<or> pid p \<in> set (revealedPlayers r) then word p
                else None)\<rparr>"

definition getRoomData :: "string \<Rightarrow> server_state \<Rightarrow> room_data option" where
  "getRoomData roomCode st =
    (case map_of (rooms st) roomCode of
       None \<Rightarrow> None
     | Some r \<Rightarrow>
         Some \<lparr>rd_code = code r,
               rd_players = map (\<lambda>(k, a). playerData r (heap st ! a)) (players r),
               rd_gameState = gameState r,
               rd_round = round r,
               rd_maxPlayers = maxPlayers r,
               rd_hostId = hostId r,
               rd_wordPair = (if gameState r = Results then wordPair r else None),
               rd_votes = length (votes r),
               rd_revealedPlayers = revealedPlayers r\<rparr>)"

section \<open>Runs of the server\<close>

datatype event =
    CreateRoom string string string
  | JoinRoom string string string
  | StartGame string nat nat
  | PlayerReady string
  | SubmitVote string string
  | NextRound string
  | RevealRole string string
  | LeaveRoom string
  | Disconnect string

fun step :: "event \<Rightarrow> server_state \<Rightarrow> server_state" where
  "step (CreateRoom sock roomCode playerName) st = createRoom sock roomCode playerName st"
| "step (JoinRoom sock roomCode playerName) st = snd (joinRoom sock roomCode playerName st)"
| "step (StartGame sock i j) st = startGame sock i j st"
| "step (PlayerReady sock) st = playerReady sock st"
| "step (SubmitVote sock targetPlayerId) st = submitVote sock targetPlayerId st"
| "step (NextRound sock) st = nextRound sock st"
| "step (RevealRole sock targetPlayerId) st = revealRole sock targetPlayerId st"
| "step (LeaveRoom sock) st = leaveRoom sock st"
| "step (Disconnect sock) st = disconnect sock st"

text \<open>The room a socket acts on: the room registered under the code stored in the
  socket's player object.\<close>

definition callerRoom :: "server_state \<Rightarrow> string \<Rightarrow> room_obj option" where
  "callerRoom st sock =
    (case map_of (pindex st) sock of
       None \<Rightarrow> None
     | Some pa \<Rightarrow> map_of (rooms st) (room (heap st ! pa)))"

text \<open>\<open>Math.floor(Math.random() * n)\<close> is below \<open>n\<close> for positive \<open>n\<close> and is 0 for \<open>n = 0\<close>.
  An event is admissible in a state when the random indices of \<open>startGame\<close> are in that
  range for the caller's room and for the catalogue.\<close>

definition randomIndex :: "nat \<Rightarrow> nat \<Rightarrow> bool" where
  "randomIndex n i = (if n = 0 then i = 0 else i < n)"

fun admissible :: "server_state \<Rightarrow> event \<Rightarrow> bool" where
  "admissible st (StartGame sock i j) =
    (randomIndex (length WORD_PAIRS) j \<and>
     (case callerRoom st sock of None \<Rightarrow> True
      | Some r \<Rightarrow> randomIndex (length (players r)) i))"
| "admissible st e = True"

text \<open>A run is collision-free when every \<open>createRoom\<close> draws a code that is not a key of
  the registry at that moment.\<close>

fun freshCode :: "server_state \<Rightarrow> event \<Rightarrow> bool" where
  "freshCode st (CreateRoom sock roomCode playerName) = (map_of (rooms st) roomCode = None)"
| "freshCode st e = True"

inductive reachable :: "server_state \<Rightarrow> bool" where
  reachable_init: "reachable init"
| reachable_step: "reachable st \<Longrightarrow> admissible st e \<Longrightarrow> reachable (step e st)"

inductive reachableFresh :: "server_state \<Rightarrow> bool" where
  fresh_init: "reachableFresh init"
| fresh_step:
    "reachableFresh st \<Longrightarrow> admissible st e \<Longrightarrow> freshCode st e \<Longrightarrow> reachableFresh (step e st)"

text \<open>Running a list of events from a state.\<close>

fun run :: "event list \<Rightarrow> server_state \<Rightarrow> server_state" where
  "run [] st = st"
| "run (e # es) st = run es (step e st)"

fun admissibleRun :: "event list \<Rightarrow> server_state \<Rightarrow> bool" where
  "admissibleRun [] st = True"
| "admissibleRun (e # es) st = (admissible st e \<and> admissibleRun es (step e st))"

fun freshRun :: "event list \<Rightarrow> server_state \<Rightarrow> bool" where
  "freshRun [] st = True"
| "freshRun (e # es) st = (freshCode st e \<and> freshRun es (step e st))"

section \<open>Example runs\<close>

text \<open>Ann creates room \<open>R\<close>; Bob and Cy join; Ann starts the game and Bob (index 1) draws
  the odd word; everybody marks ready; Ann and Cy vote for Bob, Bob votes for Cy; Ann
  advances to the next round. Two side branches: Ann reveals Bob right after the start;
  Dee, Eve and Fay join the lobby and fill the room.\<close>

definition ex_created :: server_state where
  "ex_created = run [CreateRoom ''a'' ''R'' ''Ann''] init"

definition ex_lobby :: server_state where
  "ex_lobby = run [JoinRoom ''b'' ''R'' ''Bob'', JoinRoom ''c'' ''R'' ''Cy''] ex_created"

definition ex_assigning :: server_state where
  "ex_assigning = run [StartGame ''a'' 1 0] ex_lobby"

definition ex_revealed :: server_state where
  "ex_revealed = run [RevealRole ''a'' ''b''] ex_assigning"

definition ex_two_ready :: server_state where
  "ex_two_ready = run [PlayerReady ''a'', PlayerReady ''b''] ex_assigning"

definition ex_discussion :: server_state where
  "ex_discussion = run [PlayerReady ''c''] ex_two_ready"

definition ex_two_votes :: server_state where
  "ex_two_votes = run [SubmitVote ''a'' ''b'', SubmitVote ''b'' ''c''] ex_discussion"

definition ex_results :: server_state where
  "ex_results = run [SubmitVote ''c'' ''b''] ex_two_votes"

definition ex_next :: server_state where
  "ex_next = run [NextRound ''a''] ex_results"

definition ex_full :: server_state where
  "ex_full = run [JoinRoom ''d'' ''R'' ''Dee'', JoinRoom ''e'' ''R'' ''Eve'',
                  JoinRoom ''f'' ''R'' ''Fay''] ex_lobby"




text \<open>Two runs in which a socket is known to the server in an unusual way. In the first,
  Ann, a member and the host of \<open>R\<close>, creates a second room \<open>I\<close>. In the second, the
  generator returns the code \<open>R\<close> for Dee's new room, which replaces Ann's, and Dee
  leaves it again, so that no room is registered under the code in Ann's object.\<close>

definition ex_ghost :: server_state where
  "ex_ghost = run [CreateRoom ''a'' ''I'' ''Ann''] ex_lobby"

definition ex_stale :: server_state where
  "ex_stale = run [CreateRoom ''d'' ''R'' ''Dee'', LeaveRoom ''d''] ex_lobby"

text \<open>Further example runs. Bob, who holds the odd word, leaves during \<open>assigning\<close>.
  In the second run Ann starts the game and draws the odd word herself, the generator
  then returns the code \<open>R\<close> again for Dee's new room, and Ann marks ready. In the third
  run the generator returns Ann's code \<open>R\<close> for Gus's new room, five sockets join Gus, and
  Ann marks ready.\<close>

definition ex_shadow_left :: server_state where
  "ex_shadow_left = run [LeaveRoom ''b''] ex_assigning"

definition ex_collision :: server_state where
  "ex_collision = run [StartGame ''a'' 0 0, CreateRoom ''d'' ''R'' ''Dee'', PlayerReady ''a''] ex_lobby"

definition ex_overfull :: server_state where
  "ex_overfull =
     run [CreateRoom ''g'' ''R'' ''Gus'', JoinRoom ''h'' ''R'' ''Hal'', JoinRoom ''i'' ''R'' ''Ida'',
          JoinRoom ''j'' ''R'' ''Jo'', JoinRoom ''k'' ''R'' ''Kim'', JoinRoom ''l'' ''R'' ''Lou'',
          PlayerReady ''a''] ex_created"

section \<open>Notions used in the statements\<close>

text \<open>Observations of a state: per registered room its code, host, phase and member
  map; the score of the member registered under an id in a room.\<close>

definition roomSummary :: "server_state \<Rightarrow> (string \<times> string \<times> phase \<times> (string \<times> addr) list) list" where
  "roomSummary st = map (\<lambda>(c, r). (c, hostId r, gameState r, players r)) (rooms st)"

definition memberScore :: "server_state \<Rightarrow> string \<Rightarrow> string \<Rightarrow> int option" where
  "memberScore st c k =
    (case map_of (rooms st) c of
       None \<Rightarrow> None
     | Some r \<Rightarrow> (case map_of (players r) k of
                   None \<Rightarrow> None
                 | Some a \<Rightarrow> Some (score (heap st ! a))))"





text \<open>The score a member receives in a tally, by the outcome and the member's role.\<close>

definition reward :: "bool \<Rightarrow> role_t option \<Rightarrow> int" where
  "reward caught ro =
    (if caught \<and> ro = Some Signal then 100 else if \<not> caught \<and> ro = Some Shadow then 200 else 0)"

text \<open>The object written by one iteration of the first loop of \<open>startGame\<close>.\<close>

definition assigned :: "nat \<Rightarrow> word_pair \<Rightarrow> nat \<Rightarrow> player_obj \<Rightarrow> player_obj" where
  "assigned shadowPlayerIndex wp index p =
     (if index = shadowPlayerIndex
      then p\<lparr>role := Some Shadow, word := Some (shadow wp)\<rparr>
      else p\<lparr>role := Some Signal, word := Some (signal wp)\<rparr>)\<lparr>isReady := False\<rparr>"

text \<open>The number of members of a room whose role is \<open>shadow\<close>.\<close>

definition shadowCount :: "player_obj list \<Rightarrow> (string \<times> addr) list \<Rightarrow> nat" where
  "shadowCount h ps = length (filter (\<lambda>(k, a). role (h ! a) = Some Shadow) ps)"

section \<open>Well-formed states\<close>

text \<open>The member map of the room registered under \<open>c\<close> is well formed in a store when
  it is not empty, its keys are distinct, and every entry holds the address of an
  allocated object whose \<open>id\<close> is the key and whose \<open>room\<close> is \<open>c\<close>. The global index is
  well formed when every entry holds the address of an allocated object whose \<open>id\<close> is
  the key. A store \<open>h'\<close> keeps the identities of \<open>h\<close> when it has at least the objects of
  \<open>h\<close>, with unchanged \<open>id\<close> and \<open>room\<close>.\<close>

definition membersOk :: "player_obj list \<Rightarrow> string \<Rightarrow> (string \<times> addr) list \<Rightarrow> bool" where
  "membersOk h c ps \<longleftrightarrow>
     ps \<noteq> [] \<and> distinct (map fst ps)
     \<and> (\<forall>(k, a)\<in>set ps. a < length h \<and> pid (h ! a) = k \<and> room (h ! a) = c)"

definition indexOk :: "player_obj list \<Rightarrow> (string \<times> addr) list \<Rightarrow> bool" where
  "indexOk h ix \<longleftrightarrow> (\<forall>(k, a)\<in>set ix. a < length h \<and> pid (h ! a) = k)"

definition wellFormed :: "server_state \<Rightarrow> bool" where
  "wellFormed st \<longleftrightarrow>
     indexOk (heap st) (pindex st)
     \<and> (\<forall>(c, r)\<in>set (rooms st). membersOk (heap st) c (players r))"

definition keeps :: "player_obj list \<Rightarrow> player_obj list \<Rightarrow> bool" where
  "keeps h h' \<longleftrightarrow>
     length h \<le> length h'
     \<and> (\<forall>a<length h. pid (h' ! a) = pid (h ! a) \<and> room (h' ! a) = room (h ! a))"

section \<open>Invariants of collision-free runs\<close>

text \<open>The global index is linked to the registry when every socket in it is a member,
  with the same player object, of the room registered under the code stored in that
  object.\<close>

definition linked :: "server_state \<Rightarrow> bool" where
  "linked st \<longleftrightarrow>
     (\<forall>k a. map_of (pindex st) k = Some a \<longrightarrow>
        (\<exists>r. map_of (rooms st) (room (heap st ! a)) = Some r \<and> map_of (players r) k = Some a))"

text \<open>The invariant of a registered room: its size is within its capacity, which is 6;
  in the lobby no member holds a role; at most one member holds the odd role.\<close>

definition roomInv :: "player_obj list \<Rightarrow> room_obj \<Rightarrow> bool" where
  "roomInv h r \<longleftrightarrow>
     length (players r) \<le> maxPlayers r \<and> maxPlayers r = 6
     \<and> (gameState r = Lobby \<longrightarrow> (\<forall>(k, a)\<in>set (players r). role (h ! a) = None))
     \<and> shadowCount h (players r) \<le> 1"

definition roomsInv :: "server_state \<Rightarrow> bool" where
  "roomsInv st \<longleftrightarrow> (\<forall>c r. map_of (rooms st) c = Some r \<longrightarrow> roomInv (heap st) r)"

section \<open>Evaluation of the example runs\<close>

lemmas handler_defs =
  createRoom_def joinRoom_def startGame_def playerReady_def submitVote_def nextRound_def
  revealRole_def leaveRoom_def disconnect_def calculateResults_def getRoomData_def
  playerData_def init_def newPlayer_def set_add_def WORD_PAIRS_def callerRoom_def
  randomIndex_def Let_def

lemmas ex_defs =
  ex_created_def ex_lobby_def ex_assigning_def ex_revealed_def ex_two_ready_def
  ex_discussion_def ex_two_votes_def ex_results_def ex_next_def ex_full_def
  roomSummary_def memberScore_def

section \<open>The snapshot projection\<close>

lemma getRoomData_Some:
  assumes "map_of (rooms st) c = Some r"
  shows "getRoomData c st =
    Some \<lparr>rd_code = code r,
          rd_players = map (\<lambda>(k, a). playerData r (heap st ! a)) (players r),
          rd_gameState = gameState r, rd_round = round r, rd_maxPlayers = maxPlayers r,
          rd_hostId = hostId r,
          rd_wordPair = (if gameState r = Results then wordPair r else None),
          rd_votes = length (votes r), rd_revealedPlayers = revealedPlayers r\<rparr>"
  using assms by (simp add: getRoomData_def)

text \<open>
  Claim C7. In the snapshot of a registered room, the entry of each member carries the
  member's role and word exactly when the phase is \<open>results\<close> or the member's id is in
  \<open>revealedPlayers\<close>, and \<open>null\<close> for both otherwise; the word pair is carried exactly
  when the phase is \<open>results\<close>; the votes appear as their number only, so that replacing
  the votes mapping by any other of the same size leaves the snapshot unchanged.
\<close>

theorem snapshot_visibility:
  assumes "map_of (rooms st) c = Some r"
  shows "\<exists>d. getRoomData c st = Some d
    \<and> length (rd_players d) = length (players r)
    \<and> (\<forall>n<length (players r).
          pd_id (rd_players d ! n) = pid (heap st ! snd (players r ! n))
        \<and> pd_role (rd_players d ! n) =
            (if gameState r = Results
                \<or> pid (heap st ! snd (players r ! n)) \<in> set (revealedPlayers r)
             then role (heap st ! snd (players r ! n)) else None)
        \<and> pd_word (rd_players d ! n) =
            (if gameState r = Results
                \<or> pid (heap st ! snd (players r ! n)) \<in> set (revealedPlayers r)
             then word (heap st ! snd (players r ! n)) else None))
    \<and> rd_wordPair d = (if gameState r = Results then wordPair r else None)
    \<and> rd_votes d = length (votes r)
    \<and> (\<forall>vs. length vs = length (votes r) \<longrightarrow>
          getRoomData c (st\<lparr>rooms := AList.update c (r\<lparr>votes := vs\<rparr>) (rooms st)\<rparr>)
            = getRoomData c st)"
proof -
  let ?ps = "map (\<lambda>(k, a). playerData r (heap st ! a)) (players r)"
  have vis: "\<forall>n<length (players r).
          pd_id (?ps ! n) = pid (heap st ! snd (players r ! n))
        \<and> pd_role (?ps ! n) =
            (if gameState r = Results
                \<or> pid (heap st ! snd (players r ! n)) \<in> set (revealedPlayers r)
             then role (heap st ! snd (players r ! n)) else None)
        \<and> pd_word (?ps ! n) =
            (if gameState r = Results
                \<or> pid (heap st ! snd (players r ! n)) \<in> set (revealedPlayers r)
             then word (heap st ! snd (players r ! n)) else None)"
    by (simp add: playerData_def split_beta)
  have same: "\<forall>vs. length vs = length (votes r) \<longrightarrow>
          getRoomData c (st\<lparr>rooms := AList.update c (r\<lparr>votes := vs\<rparr>) (rooms st)\<rparr>)
            = getRoomData c st"
    using assms by (simp add: getRoomData_def update_conv' playerData_def)
  show ?thesis
    using vis same by (simp add: getRoomData_Some [OF assms])
qed

text \<open>In the example, Bob is revealed during \<open>assigning\<close>: the snapshot shows Bob's role
  and word, hides Ann's, hides the word pair and reports zero votes.\<close>

theorem snapshot_visibility_witness:
  "map_of (rooms ex_revealed) ''R'' = Some (snd (hd (rooms ex_revealed)))
   \<and> (\<exists>d. getRoomData ''R'' ex_revealed = Some d
        \<and> map pd_id (rd_players d) = [''a'', ''b'', ''c'']
        \<and> map pd_role (rd_players d) = [None, Some Shadow, None]
        \<and> map pd_word (rd_players d) = [None, Some ''Vampire'', None]
        \<and> rd_wordPair d = None \<and> rd_votes d = 0)"
proof -
  have h: "map_of (rooms ex_revealed) ''R'' = Some (snd (hd (rooms ex_revealed)))"
    by (simp add: ex_defs handler_defs)
  have v: "getRoomData ''R'' ex_revealed =
    Some \<lparr>rd_code = ''R'',
          rd_players =
            [\<lparr>pd_id = ''a'', pd_name = ''Ann'', pd_isReady = False, pd_score = 0,
               pd_role = None, pd_word = None\<rparr>,
             \<lparr>pd_id = ''b'', pd_name = ''Bob'', pd_isReady = False, pd_score = 0,
               pd_role = Some Shadow, pd_word = Some ''Vampire''\<rparr>,
             \<lparr>pd_id = ''c'', pd_name = ''Cy'', pd_isReady = False, pd_score = 0,
               pd_role = None, pd_word = None\<rparr>],
          rd_gameState = Assigning, rd_round = 1, rd_maxPlayers = 6, rd_hostId = ''a'',
          rd_wordPair = None, rd_votes = 0, rd_revealedPlayers = [''b'']\<rparr>"
    by (simp add: ex_defs handler_defs)
  show ?thesis
    using h snapshot_visibility [OF h] by (simp add: v)
qed

section \<open>Joining a room\<close>

lemma joinRoom_error_unchanged:
  "fst (joinRoom sock c nm st) \<noteq> None \<Longrightarrow> snd (joinRoom sock c nm st) = st"
  by (auto simp add: joinRoom_def Let_def split: option.splits if_splits)

lemma joinRoom_NotFound:
  "fst (joinRoom sock c nm st) = Some RoomNotFound \<longleftrightarrow> map_of (rooms st) c = None"
  by (auto simp add: joinRoom_def Let_def split: option.splits if_splits)

lemma joinRoom_Full:
  "fst (joinRoom sock c nm st) = Some RoomFull \<longleftrightarrow>
   (\<exists>r. map_of (rooms st) c = Some r \<and> maxPlayers r \<le> length (players r))"
  by (auto simp add: joinRoom_def Let_def split: option.splits if_splits)

lemma joinRoom_InProgress:
  "fst (joinRoom sock c nm st) = Some GameInProgress \<longleftrightarrow>
   (\<exists>r. map_of (rooms st) c = Some r \<and> length (players r) < maxPlayers r
        \<and> gameState r \<noteq> Lobby)"
  by (auto simp add: joinRoom_def Let_def split: option.splits if_splits)

lemma joinRoom_success:
  assumes "fst (joinRoom sock c nm st) = None"
  shows "\<exists>r. map_of (rooms st) c = Some r
     \<and> length (players r) < maxPlayers r \<and> gameState r = Lobby
     \<and> snd (joinRoom sock c nm st) =
         st\<lparr>rooms := AList.update c
                        (r\<lparr>players := AList.update sock (length (heap st)) (players r)\<rparr>)
                        (rooms st),
            pindex := AList.update sock (length (heap st)) (pindex st),
            heap := heap st @ [newPlayer sock nm c]\<rparr>"
  using assms by (auto simp add: joinRoom_def Let_def split: option.splits if_splits)

text \<open>
  Claim C8. \<open>joinRoom\<close> answers with an error exactly when the code is not registered
  (\<open>RoomNotFound\<close>), or the room is registered and holds at least \<open>maxPlayers\<close> members
  (\<open>RoomFull\<close>), or the room is registered, is not full and its phase is not \<open>lobby\<close>
  (\<open>GameInProgress\<close>; the checks run in this order, so a full room that is not in the
  lobby answers \<open>RoomFull\<close>). On every error the whole state is unchanged. Otherwise a
  new player object is allocated and stored under the caller's id in the room's member
  map and in the global index, and nothing else changes.
\<close>

theorem joinRoom_outcomes:
  "(fst (joinRoom sock c nm st) = Some RoomNotFound \<longleftrightarrow> map_of (rooms st) c = None)
 \<and> (fst (joinRoom sock c nm st) = Some RoomFull \<longleftrightarrow>
      (\<exists>r. map_of (rooms st) c = Some r \<and> maxPlayers r \<le> length (players r)))
 \<and> (fst (joinRoom sock c nm st) = Some GameInProgress \<longleftrightarrow>
      (\<exists>r. map_of (rooms st) c = Some r \<and> length (players r) < maxPlayers r
           \<and> gameState r \<noteq> Lobby))
 \<and> (fst (joinRoom sock c nm st) \<noteq> None \<longrightarrow> snd (joinRoom sock c nm st) = st)
 \<and> (fst (joinRoom sock c nm st) = None \<longrightarrow>
      (\<exists>r r'. map_of (rooms st) c = Some r
         \<and> map_of (rooms (snd (joinRoom sock c nm st))) c = Some r'
         \<and> map_of (players r') sock = Some (length (heap st))
         \<and> (\<forall>k. k \<noteq> sock \<longrightarrow> map_of (players r') k = map_of (players r) k)
         \<and> r'\<lparr>players := players r\<rparr> = r
         \<and> map_of (pindex (snd (joinRoom sock c nm st))) sock = Some (length (heap st))
         \<and> (\<forall>k. k \<noteq> sock \<longrightarrow>
               map_of (pindex (snd (joinRoom sock c nm st))) k = map_of (pindex st) k)
         \<and> (\<forall>c'. c' \<noteq> c \<longrightarrow>
               map_of (rooms (snd (joinRoom sock c nm st))) c' = map_of (rooms st) c')
         \<and> heap (snd (joinRoom sock c nm st)) = heap st @ [newPlayer sock nm c]))"
proof -
  have succ: "fst (joinRoom sock c nm st) = None \<longrightarrow>
      (\<exists>r r'. map_of (rooms st) c = Some r
         \<and> map_of (rooms (snd (joinRoom sock c nm st))) c = Some r'
         \<and> map_of (players r') sock = Some (length (heap st))
         \<and> (\<forall>k. k \<noteq> sock \<longrightarrow> map_of (players r') k = map_of (players r) k)
         \<and> r'\<lparr>players := players r\<rparr> = r
         \<and> map_of (pindex (snd (joinRoom sock c nm st))) sock = Some (length (heap st))
         \<and> (\<forall>k. k \<noteq> sock \<longrightarrow>
               map_of (pindex (snd (joinRoom sock c nm st))) k = map_of (pindex st) k)
         \<and> (\<forall>c'. c' \<noteq> c \<longrightarrow>
               map_of (rooms (snd (joinRoom sock c nm st))) c' = map_of (rooms st) c')
         \<and> heap (snd (joinRoom sock c nm st)) = heap st @ [newPlayer sock nm c])"
  proof
    assume ok: "fst (joinRoom sock c nm st) = None"
    from joinRoom_success [OF ok] obtain r where
      r: "map_of (rooms st) c = Some r" and
      eq: "snd (joinRoom sock c nm st) =
         st\<lparr>rooms := AList.update c
                        (r\<lparr>players := AList.update sock (length (heap st)) (players r)\<rparr>)
                        (rooms st),
            pindex := AList.update sock (length (heap st)) (pindex st),
            heap := heap st @ [newPlayer sock nm c]\<rparr>"
      by blast
    show "\<exists>r r'. map_of (rooms st) c = Some r
         \<and> map_of (rooms (snd (joinRoom sock c nm st))) c = Some r'
         \<and> map_of (players r') sock = Some (length (heap st))
         \<and> (\<forall>k. k \<noteq> sock \<longrightarrow> map_of (players r') k = map_of (players r) k)
         \<and> r'\<lparr>players := players r\<rparr> = r
         \<and> map_of (pindex (snd (joinRoom sock c nm st))) sock = Some (length (heap st))
         \<and> (\<forall>k. k \<noteq> sock \<longrightarrow>
               map_of (pindex (snd (joinRoom sock c nm st))) k = map_of (pindex st) k)
         \<and> (\<forall>c'. c' \<noteq> c \<longrightarrow>
               map_of (rooms (snd (joinRoom sock c nm st))) c' = map_of (rooms st) c')
         \<and> heap (snd (joinRoom sock c nm st)) = heap st @ [newPlayer sock nm c]"
      apply (rule exI [of _ r])
      apply (rule exI [of _ "r\<lparr>players := AList.update sock (length (heap st)) (players r)\<rparr>"])
      apply (simp add: eq r update_conv')
      done
  qed
  have unch: "fst (joinRoom sock c nm st) \<noteq> None \<longrightarrow> snd (joinRoom sock c nm st) = st"
    using joinRoom_error_unchanged [of sock c nm st] by simp
  show ?thesis
    apply (intro conjI)
        apply (rule joinRoom_NotFound)
       apply (rule joinRoom_Full)
      apply (rule joinRoom_InProgress)
     apply (rule unch)
    apply (rule succ)
    done
qed


text \<open>In the example: Dee joins the lobby of \<open>R\<close>; no room \<open>Q\<close> exists; with six members
  \<open>R\<close> is full; after the start \<open>R\<close> is no longer in the lobby.\<close>

theorem joinRoom_outcomes_witness:
  "fst (joinRoom ''d'' ''R'' ''Dee'' ex_lobby) = None
 \<and> map_of (pindex (snd (joinRoom ''d'' ''R'' ''Dee'' ex_lobby))) ''d'' = Some 3
 \<and> map_of (rooms ex_lobby) ''Q'' = None
 \<and> joinRoom ''d'' ''Q'' ''Dee'' ex_lobby = (Some RoomNotFound, ex_lobby)
 \<and> joinRoom ''g'' ''R'' ''Gus'' ex_full = (Some RoomFull, ex_full)
 \<and> joinRoom ''d'' ''R'' ''Dee'' ex_assigning = (Some GameInProgress, ex_assigning)"
proof -
  note lobby = joinRoom_outcomes [of "''d''" "''R''" "''Dee''" ex_lobby]
  note absent = joinRoom_outcomes [of "''d''" "''Q''" "''Dee''" ex_lobby]
  note full = joinRoom_outcomes [of "''g''" "''R''" "''Gus''" ex_full]
  note started = joinRoom_outcomes [of "''d''" "''R''" "''Dee''" ex_assigning]
  have a: "fst (joinRoom ''d'' ''R'' ''Dee'' ex_lobby) = None"
    by (simp add: ex_defs handler_defs)
  have l: "length (heap ex_lobby) = 3"
    by (simp add: ex_defs handler_defs)
  have b: "map_of (pindex (snd (joinRoom ''d'' ''R'' ''Dee'' ex_lobby))) ''d'' = Some 3"
    using lobby [THEN conjunct2, THEN conjunct2, THEN conjunct2, THEN conjunct2, THEN mp, OF a]
    by (elim exE conjE) (simp add: l)
  have c: "map_of (rooms ex_lobby) ''Q'' = None"
    by (simp add: ex_defs handler_defs)
  have c1: "fst (joinRoom ''d'' ''Q'' ''Dee'' ex_lobby) = Some RoomNotFound"
    using absent [THEN conjunct1] c by simp
  have c2: "snd (joinRoom ''d'' ''Q'' ''Dee'' ex_lobby) = ex_lobby"
    using absent [THEN conjunct2, THEN conjunct2, THEN conjunct2, THEN conjunct1] c1 by simp
  have d1: "fst (joinRoom ''g'' ''R'' ''Gus'' ex_full) = Some RoomFull"
    by (simp add: ex_defs handler_defs)
  have d2: "snd (joinRoom ''g'' ''R'' ''Gus'' ex_full) = ex_full"
    using full [THEN conjunct2, THEN conjunct2, THEN conjunct2, THEN conjunct1] d1 by simp
  have e1: "fst (joinRoom ''d'' ''R'' ''Dee'' ex_assigning) = Some GameInProgress"
    by (simp add: ex_defs handler_defs)
  have e2: "snd (joinRoom ''d'' ''R'' ''Dee'' ex_assigning) = ex_assigning"
    using started [THEN conjunct2, THEN conjunct2, THEN conjunct2, THEN conjunct1] e1 by simp
  show ?thesis
    using a b c c1 c2 d1 d2 e1 e2 by (simp add: prod_eq_iff)
qed

section \<open>Leaving a room\<close>

lemma leaveRoom_noop:
  "callerRoom st sock = None \<Longrightarrow> leaveRoom sock st = st"
  by (simp add: leaveRoom_def callerRoom_def split: option.splits)

lemma leaveRoom_last:
  assumes "map_of (pindex st) sock = Some pa"
    and "map_of (rooms st) (room (heap st ! pa)) = Some r"
    and "AList.delete sock (players r) = []"
  shows "leaveRoom sock st =
     st\<lparr>pindex := AList.delete sock (pindex st),
        rooms := AList.delete (room (heap st ! pa)) (rooms st)\<rparr>"
  using assms by (simp add: leaveRoom_def)

lemma leaveRoom_rest:
  assumes "map_of (pindex st) sock = Some pa"
    and "map_of (rooms st) (room (heap st ! pa)) = Some r"
    and "AList.delete sock (players r) = (k, a) # rest"
  shows "leaveRoom sock st =
     st\<lparr>pindex := AList.delete sock (pindex st),
        rooms := AList.update (room (heap st ! pa))
                   (r\<lparr>players := AList.delete sock (players r),
                      hostId := (if hostId r = sock then k else hostId r)\<rparr>) (rooms st)\<rparr>"
  using assms by (simp add: leaveRoom_def)

text \<open>
  Claim C6, as the code has it. \<open>leaveRoom\<close> and \<open>disconnect\<close> map every state to the
  same state. When the caller has no player object, or no room is registered under the
  code stored in it, both leave the state unchanged, index included. Otherwise the
  caller is deleted from the global index and from the member map of the room
  registered under that code, and from no other room; other rooms and other index
  entries are untouched, and: if no member remains, the room is deleted from the
  registry and every later \<open>joinRoom\<close> with that code answers \<open>RoomNotFound\<close>; if
  members remain, the room stays registered and its host becomes the first remaining
  entry of the member map when the caller was host, and stays the same otherwise.
\<close>

theorem leaveRoom_disconnect_effect:
  "leaveRoom sock st = disconnect sock st
 \<and> (callerRoom st sock = None \<longrightarrow> disconnect sock st = st)
 \<and> (\<forall>pa r. map_of (pindex st) sock = Some pa
        \<and> map_of (rooms st) (room (heap st ! pa)) = Some r \<longrightarrow>
      map_of (pindex (disconnect sock st)) sock = None
    \<and> (\<forall>k. k \<noteq> sock \<longrightarrow> map_of (pindex (disconnect sock st)) k = map_of (pindex st) k)
    \<and> (\<forall>c. c \<noteq> room (heap st ! pa) \<longrightarrow>
          map_of (rooms (disconnect sock st)) c = map_of (rooms st) c)
    \<and> heap (disconnect sock st) = heap st
    \<and> (case AList.delete sock (players r) of
          [] \<Rightarrow>
            map_of (rooms (disconnect sock st)) (room (heap st ! pa)) = None
          \<and> (\<forall>s nm. joinRoom s (room (heap st ! pa)) nm (disconnect sock st)
                      = (Some RoomNotFound, disconnect sock st))
        | (k, a) # rest \<Rightarrow>
            map_of (rooms (disconnect sock st)) (room (heap st ! pa)) =
              Some (r\<lparr>players := AList.delete sock (players r),
                      hostId := (if hostId r = sock then k else hostId r)\<rparr>)
          \<and> map_of (AList.delete sock (players r)) sock = None))"
proof -
  have same: "leaveRoom sock st = disconnect sock st"
    by (simp add: leaveRoom_def disconnect_def)
  have noop: "callerRoom st sock = None \<longrightarrow> disconnect sock st = st"
    using leaveRoom_noop [of st sock] same by simp
  have eff: "\<forall>pa r. map_of (pindex st) sock = Some pa
        \<and> map_of (rooms st) (room (heap st ! pa)) = Some r \<longrightarrow>
      map_of (pindex (leaveRoom sock st)) sock = None
    \<and> (\<forall>k. k \<noteq> sock \<longrightarrow> map_of (pindex (leaveRoom sock st)) k = map_of (pindex st) k)
    \<and> (\<forall>c. c \<noteq> room (heap st ! pa) \<longrightarrow>
          map_of (rooms (leaveRoom sock st)) c = map_of (rooms st) c)
    \<and> heap (leaveRoom sock st) = heap st
    \<and> (case AList.delete sock (players r) of
          [] \<Rightarrow>
            map_of (rooms (leaveRoom sock st)) (room (heap st ! pa)) = None
          \<and> (\<forall>s nm. joinRoom s (room (heap st ! pa)) nm (leaveRoom sock st)
                      = (Some RoomNotFound, leaveRoom sock st))
        | (k, a) # rest \<Rightarrow>
            map_of (rooms (leaveRoom sock st)) (room (heap st ! pa)) =
              Some (r\<lparr>players := AList.delete sock (players r),
                      hostId := (if hostId r = sock then k else hostId r)\<rparr>)
          \<and> map_of (AList.delete sock (players r)) sock = None)"
  proof (intro allI impI, elim conjE)
    fix pa r
    assume ix: "map_of (pindex st) sock = Some pa"
      and rm: "map_of (rooms st) (room (heap st ! pa)) = Some r"
    show "map_of (pindex (leaveRoom sock st)) sock = None
    \<and> (\<forall>k. k \<noteq> sock \<longrightarrow> map_of (pindex (leaveRoom sock st)) k = map_of (pindex st) k)
    \<and> (\<forall>c. c \<noteq> room (heap st ! pa) \<longrightarrow>
          map_of (rooms (leaveRoom sock st)) c = map_of (rooms st) c)
    \<and> heap (leaveRoom sock st) = heap st
    \<and> (case AList.delete sock (players r) of
          [] \<Rightarrow>
            map_of (rooms (leaveRoom sock st)) (room (heap st ! pa)) = None
          \<and> (\<forall>s nm. joinRoom s (room (heap st ! pa)) nm (leaveRoom sock st)
                      = (Some RoomNotFound, leaveRoom sock st))
        | (k, a) # rest \<Rightarrow>
            map_of (rooms (leaveRoom sock st)) (room (heap st ! pa)) =
              Some (r\<lparr>players := AList.delete sock (players r),
                      hostId := (if hostId r = sock then k else hostId r)\<rparr>)
          \<and> map_of (AList.delete sock (players r)) sock = None)"
    proof (cases "AList.delete sock (players r)")
      case Nil
      show ?thesis
        by (simp add: leaveRoom_last [OF ix rm Nil] Nil delete_conv' joinRoom_def)
    next
      case (Cons ka rest)
      obtain k a where ka: "ka = (k, a)" by (cases ka)
      have d: "AList.delete sock (players r) = (k, a) # rest"
        using Cons ka by simp
      have gone: "map_of ((k, a) # rest) sock = None"
        using delete_conv' [of sock "players r"] d by (metis fun_upd_same)
      show ?thesis
        using gone by (simp add: leaveRoom_rest [OF ix rm d] d delete_conv' update_conv')
    qed
  qed
  show ?thesis
    apply (intro conjI)
      apply (rule same)
     apply (rule noop)
    apply (rule eff [unfolded same])
    done
qed

text \<open>Ann, the host, disconnects from the three-member lobby: Bob becomes host. Ann
  disconnects from the room she alone is in: the room is gone. A socket unknown to the
  server disconnects: nothing changes.\<close>

theorem leaveRoom_disconnect_effect_witness:
  "map_of (pindex ex_lobby) ''a'' = Some 0
 \<and> map_of (rooms ex_lobby) (room (heap ex_lobby ! 0)) = Some (snd (hd (rooms ex_lobby)))
 \<and> hostId (snd (hd (rooms ex_lobby))) = ''a''
 \<and> leaveRoom ''a'' ex_lobby = disconnect ''a'' ex_lobby
 \<and> map_of (pindex (disconnect ''a'' ex_lobby)) ''a'' = None
 \<and> roomSummary (disconnect ''a'' ex_lobby) = [(''R'', ''b'', Lobby, [(''b'', 1), (''c'', 2)])]
 \<and> map_of (pindex ex_created) ''a'' = Some 0
 \<and> map_of (rooms ex_created) (room (heap ex_created ! 0)) = Some (snd (hd (rooms ex_created)))
 \<and> rooms (disconnect ''a'' ex_created) = []
 \<and> fst (joinRoom ''b'' ''R'' ''Bob'' (disconnect ''a'' ex_created)) = Some RoomNotFound
 \<and> callerRoom ex_lobby ''z'' = None
 \<and> disconnect ''z'' ex_lobby = ex_lobby"
proof -
  have h1: "map_of (pindex ex_lobby) ''a'' = Some 0
    \<and> map_of (rooms ex_lobby) (room (heap ex_lobby ! 0)) = Some (snd (hd (rooms ex_lobby)))"
    by (simp add: ex_defs handler_defs)
  have h2: "map_of (pindex ex_created) ''a'' = Some 0
    \<and> map_of (rooms ex_created) (room (heap ex_created ! 0)) = Some (snd (hd (rooms ex_created)))"
    by (simp add: ex_defs handler_defs)
  have v1: "disconnect ''a'' ex_lobby =
     \<lparr>rooms = [(''R'', \<lparr>code = ''R'', players = [(''b'', 1), (''c'', 2)], gameState = Lobby,
         round = 1, maxPlayers = 6, hostId = ''b'', wordPair = None, votes = [],
         revealedPlayers = [], results = None\<rparr>)],
      pindex = [(''b'', 1), (''c'', 2)],
      heap = [newPlayer ''a'' ''Ann'' ''R'', newPlayer ''b'' ''Bob'' ''R'',
              newPlayer ''c'' ''Cy'' ''R'']\<rparr>"
    by (simp add: ex_defs handler_defs)
  have v2: "disconnect ''a'' ex_created =
     \<lparr>rooms = [], pindex = [], heap = [newPlayer ''a'' ''Ann'' ''R'']\<rparr>"
    by (simp add: ex_defs handler_defs)
  have v3: "hostId (snd (hd (rooms ex_lobby))) = ''a''"
    by (simp add: ex_defs handler_defs)
  have z: "callerRoom ex_lobby ''z'' = None"
    by (simp add: ex_defs handler_defs)
  have n: "disconnect ''z'' ex_lobby = ex_lobby"
    using leaveRoom_disconnect_effect [of "''z''" ex_lobby, THEN conjunct2, THEN conjunct1] z
    by simp
  show ?thesis
    using h1 h2 v3 z n leaveRoom_disconnect_effect [of "''a''" ex_lobby]
      leaveRoom_disconnect_effect [of "''a''" ex_created]
    by (simp add: v1 v2 joinRoom_def roomSummary_def)
qed

section \<open>Creating a room\<close>

text \<open>
  Claim C3, as the code has it. \<open>createRoom\<close> registers the new room, with the caller as
  its only member and host and in phase \<open>lobby\<close>, under the code the generator returned,
  whatever the registry holds; rooms under other codes are untouched. So no registered
  room is lost if the generated code was not a key of the registry; there is no
  collision check and no retry.
\<close>

theorem createRoom_registers:
  "map_of (rooms (createRoom sock c nm st)) c =
      Some \<lparr>code = c, players = [(sock, length (heap st))], gameState = Lobby,
        round = 1, maxPlayers = 6, hostId = sock, wordPair = None, votes = [],
        revealedPlayers = [], results = None\<rparr>
 \<and> (\<forall>c'. c' \<noteq> c \<longrightarrow> map_of (rooms (createRoom sock c nm st)) c' = map_of (rooms st) c')
 \<and> (map_of (rooms st) c = None \<longrightarrow>
      (\<forall>c' r. map_of (rooms st) c' = Some r \<longrightarrow>
               map_of (rooms (createRoom sock c nm st)) c' = Some r))"
  by (auto simp add: createRoom_def Let_def update_conv')

theorem createRoom_registers_witness:
  "map_of (rooms ex_lobby) ''Q'' = None
 \<and> map_of (rooms (createRoom ''d'' ''Q'' ''Dee'' ex_lobby)) ''R'' = map_of (rooms ex_lobby) ''R''
 \<and> map_of (rooms ex_lobby) ''R'' \<noteq> None
 \<and> roomSummary (createRoom ''d'' ''Q'' ''Dee'' ex_lobby)
      = [(''R'', ''a'', Lobby, [(''a'', 0), (''b'', 1), (''c'', 2)]), (''Q'', ''d'', Lobby, [(''d'', 3)])]"
proof -
  have h: "map_of (rooms ex_lobby) ''Q'' = None" "map_of (rooms ex_lobby) ''R'' \<noteq> None"
    by (simp_all add: ex_defs handler_defs)
  have v: "roomSummary (createRoom ''d'' ''Q'' ''Dee'' ex_lobby)
      = [(''R'', ''a'', Lobby, [(''a'', 0), (''b'', 1), (''c'', 2)]), (''Q'', ''d'', Lobby, [(''d'', 3)])]"
    by (simp add: ex_defs handler_defs)
  show ?thesis
    using h v createRoom_registers [of "''d''" "''Q''" "''Dee''" ex_lobby] by simp
qed

text \<open>Claim C3 as stated fails: when the generator returns the code of the registered
  three-member room, that room is replaced by the new one-member room.\<close>

theorem createRoom_collision_counterexample:
  "map_of (rooms ex_lobby) ''R'' \<noteq> None
 \<and> map_of (rooms (createRoom ''d'' ''R'' ''Dee'' ex_lobby)) ''R'' \<noteq> map_of (rooms ex_lobby) ''R''
 \<and> roomSummary ex_lobby = [(''R'', ''a'', Lobby, [(''a'', 0), (''b'', 1), (''c'', 2)])]
 \<and> roomSummary (createRoom ''d'' ''R'' ''Dee'' ex_lobby) = [(''R'', ''d'', Lobby, [(''d'', 3)])]"
  by (simp add: ex_defs handler_defs)

section \<open>Vote tally\<close>

lemma nth_upd: "h[a := x] ! b = (if a = b \<and> a < length h then x else h ! b)"
  by (cases "a < length h") (auto simp add: nth_list_update list_update_beyond)














section \<open>The loops over player objects\<close>

lemma updateScores_length [simp]: "length (updateScores c as h) = length h"
  by (induction as arbitrary: h) auto

lemma updateScores_fields:
  "pid (updateScores c as h ! b) = pid (h ! b)
 \<and> room (updateScores c as h ! b) = room (h ! b)
 \<and> role (updateScores c as h ! b) = role (h ! b)
 \<and> name (updateScores c as h ! b) = name (h ! b)
 \<and> word (updateScores c as h ! b) = word (h ! b)
 \<and> isReady (updateScores c as h ! b) = isReady (h ! b)"
  by (induction as arbitrary: h) (auto simp add: nth_upd)

lemma updateScores_mono: "score (h ! b) \<le> score (updateScores c as h ! b)"
proof (induction as arbitrary: h)
  case Nil
  then show ?case by simp
next
  case (Cons a as)
  let ?h = "(if c \<and> role (h ! a) = Some Signal then h[a := (h ! a)\<lparr>score := score (h ! a) + 100\<rparr>]
       else if \<not> c \<and> role (h ! a) = Some Shadow
            then h[a := (h ! a)\<lparr>score := score (h ! a) + 200\<rparr>]
       else h)"
  have "score (h ! b) \<le> score (?h ! b)" by (simp add: nth_upd)
  also have "\<dots> \<le> score (updateScores c as ?h ! b)" by (rule Cons.IH)
  finally show ?case by simp
qed

lemma updateScores_other: "b \<notin> set as \<Longrightarrow> updateScores c as h ! b = h ! b"
  by (induction as arbitrary: h) (auto simp add: nth_upd)

lemma updateScores_member:
  "distinct as \<Longrightarrow> b \<in> set as \<Longrightarrow> b < length h \<Longrightarrow>
   score (updateScores c as h ! b) = score (h ! b) + reward c (role (h ! b))"
proof (induction as arbitrary: h)
  case Nil
  then show ?case by simp
next
  case (Cons a as)
  let ?h = "(if c \<and> role (h ! a) = Some Signal then h[a := (h ! a)\<lparr>score := score (h ! a) + 100\<rparr>]
       else if \<not> c \<and> role (h ! a) = Some Shadow
            then h[a := (h ! a)\<lparr>score := score (h ! a) + 200\<rparr>]
       else h)"
  show ?case
  proof (cases "b = a")
    case True
    then have "b \<notin> set as" using Cons.prems(1) by simp
    then have "updateScores c as ?h ! b = ?h ! b" by (rule updateScores_other)
    then show ?thesis using True Cons.prems(3) by (simp add: reward_def)
  next
    case False
    then have b: "b \<in> set as" using Cons.prems(2) by simp
    have l: "b < length ?h" using Cons.prems(3) by simp
    have "score (updateScores c as ?h ! b) = score (?h ! b) + reward c (role (?h ! b))"
      using Cons.IH [of ?h] Cons.prems(1) b l by simp
    then show ?thesis using False by (simp add: nth_upd)
  qed
qed

lemma resetPlayers_length [simp]: "length (resetPlayers as h) = length h"
  by (induction as arbitrary: h) auto

lemma resetPlayers_fields:
  "pid (resetPlayers as h ! b) = pid (h ! b)
 \<and> room (resetPlayers as h ! b) = room (h ! b)
 \<and> name (resetPlayers as h ! b) = name (h ! b)
 \<and> score (resetPlayers as h ! b) = score (h ! b)"
  by (induction as arbitrary: h) (auto simp add: nth_upd)

lemma resetPlayers_other: "b \<notin> set as \<Longrightarrow> resetPlayers as h ! b = h ! b"
  by (induction as arbitrary: h) (auto simp add: nth_upd)

lemma resetPlayers_member:
  "b \<in> set as \<Longrightarrow> b < length h \<Longrightarrow>
   role (resetPlayers as h ! b) = None \<and> word (resetPlayers as h ! b) = None
   \<and> isReady (resetPlayers as h ! b) = False"
proof (induction as arbitrary: h)
  case Nil
  then show ?case by simp
next
  case (Cons a as)
  let ?h = "h[a := (h ! a)\<lparr>role := None, word := None, isReady := False\<rparr>]"
  show ?case
  proof (cases "b \<in> set as")
    case True
    then show ?thesis using Cons.IH [of ?h] Cons.prems(2) by simp
  next
    case False
    then have "b = a" using Cons.prems(1) by simp
    then show ?thesis using False Cons.prems(2) by (simp add: resetPlayers_other)
  qed
qed

lemma assignRoles_Cons:
  "assignRoles i wp (a # as) n (h, rp, ix) =
     assignRoles i wp as (Suc n)
       (h[a := assigned i wp n (h ! a)], AList.update (pid (h ! a)) a rp,
        AList.update (pid (h ! a)) a ix)"
  by (simp add: assigned_def Let_def)

lemma assigned_fields [simp]:
  "pid (assigned i wp n p) = pid p" "room (assigned i wp n p) = room p"
  "name (assigned i wp n p) = name p" "score (assigned i wp n p) = score p"
  "isReady (assigned i wp n p) = False"
  "role (assigned i wp n p) = Some (if n = i then Shadow else Signal)"
  "word (assigned i wp n p) = Some (if n = i then shadow wp else signal wp)"
  by (simp_all add: assigned_def)

lemma assignRoles_length [simp]:
  "length (fst (assignRoles i wp as n (h, rp, ix))) = length h"
  by (induction as arbitrary: n h rp ix) (simp_all add: assignRoles_Cons del: assignRoles.simps(2))

lemma assignRoles_fields:
  "pid (fst (assignRoles i wp as n (h, rp, ix)) ! b) = pid (h ! b)
 \<and> room (fst (assignRoles i wp as n (h, rp, ix)) ! b) = room (h ! b)
 \<and> name (fst (assignRoles i wp as n (h, rp, ix)) ! b) = name (h ! b)
 \<and> score (fst (assignRoles i wp as n (h, rp, ix)) ! b) = score (h ! b)"
  by (induction as arbitrary: n h rp ix)
     (simp_all add: assignRoles_Cons nth_upd del: assignRoles.simps(2))

lemma assignRoles_other:
  "b \<notin> set as \<Longrightarrow> fst (assignRoles i wp as n (h, rp, ix)) ! b = h ! b"
  by (induction as arbitrary: n h rp ix)
     (simp_all add: assignRoles_Cons nth_upd del: assignRoles.simps(2))

lemma assignRoles_member:
  "distinct as \<Longrightarrow> m < length as \<Longrightarrow> as ! m < length h \<Longrightarrow>
   fst (assignRoles i wp as n (h, rp, ix)) ! (as ! m) = assigned i wp (n + m) (h ! (as ! m))"
proof (induction as arbitrary: n h rp ix m)
  case Nil
  then show ?case by simp
next
  case (Cons a as)
  show ?case
  proof (cases m)
    case 0
    have "a \<notin> set as" using Cons.prems(1) by simp
    then show ?thesis using 0 Cons.prems(3)
      by (simp add: assignRoles_Cons assignRoles_other del: assignRoles.simps(2))
  next
    case (Suc m')
    have ne: "as ! m' \<noteq> a" using Cons.prems(1,2) Suc by auto
    have "fst (assignRoles i wp as (Suc n)
       (h[a := assigned i wp n (h ! a)], AList.update (pid (h ! a)) a rp,
        AList.update (pid (h ! a)) a ix)) ! (as ! m')
        = assigned i wp (Suc n + m') (h[a := assigned i wp n (h ! a)] ! (as ! m'))"
      using Cons.prems Suc by (intro Cons.IH) auto
    then show ?thesis using Suc ne
      by (simp add: assignRoles_Cons nth_upd del: assignRoles.simps(2))
  qed
qed

lemma assignRoles_rp:
  "\<forall>a\<in>set as. map_of rp (pid (h ! a)) = Some a \<Longrightarrow>
   fst (snd (assignRoles i wp as n (h, rp, ix))) = rp"
proof (induction as arbitrary: n h ix)
  case Nil
  then show ?case by simp
next
  case (Cons a as)
  have t: "AList.update (pid (h ! a)) a rp = rp"
    using Cons.prems by (simp add: update_triv)
  have "\<forall>b\<in>set as. map_of rp (pid (h[a := assigned i wp n (h ! a)] ! b)) = Some b"
    using Cons.prems by (simp add: nth_upd)
  from Cons.IH [OF this] show ?case
    by (simp add: assignRoles_Cons t del: assignRoles.simps(2))
qed

lemma assignRoles_ix:
  "map_of (snd (snd (assignRoles i wp as n (h, rp, ix)))) k = Some a \<Longrightarrow>
   map_of ix k = Some a \<or> (a \<in> set as \<and> pid (h ! a) = k)"
proof (induction as arbitrary: n h rp ix)
  case Nil
  then show ?case by simp
next
  case (Cons b as)
  from Cons.prems have
    "map_of (snd (snd (assignRoles i wp as (Suc n)
       (h[b := assigned i wp n (h ! b)], AList.update (pid (h ! b)) b rp,
        AList.update (pid (h ! b)) b ix)))) k = Some a"
    by (simp add: assignRoles_Cons del: assignRoles.simps(2))
  from Cons.IH [OF this] show ?case
    by (auto simp add: update_conv' nth_upd split: if_splits)
qed

section \<open>Well-formedness is invariant\<close>

lemma set_update_subset: "set (AList.update k v al) \<subseteq> insert (k, v) (set al)"
  by (induction al) auto

lemma set_delete_subset: "set (AList.delete k al) \<subseteq> set al"
  by (auto simp add: AList.delete_eq)

lemma keeps_refl [simp]: "keeps h h"
  by (simp add: keeps_def)

lemma keeps_append [simp]: "keeps h (h @ [p])"
  by (simp add: keeps_def nth_append)

lemma keeps_upd: "pid x = pid (h ! a) \<Longrightarrow> room x = room (h ! a) \<Longrightarrow> keeps h (h[a := x])"
  by (simp add: keeps_def nth_upd)

lemma keeps_updateScores [simp]: "keeps h (updateScores c as h)"
  by (simp add: keeps_def updateScores_fields)

lemma keeps_resetPlayers [simp]: "keeps h (resetPlayers as h)"
  by (simp add: keeps_def resetPlayers_fields)

lemma keeps_assignRoles [simp]: "keeps h (fst (assignRoles i wp as n (h, rp, ix)))"
  by (simp add: keeps_def assignRoles_fields)

lemma membersOk_keeps: "keeps h h' \<Longrightarrow> membersOk h c ps \<Longrightarrow> membersOk h' c ps"
  by (fastforce simp add: membersOk_def keeps_def)

lemma indexOk_keeps: "keeps h h' \<Longrightarrow> indexOk h ix \<Longrightarrow> indexOk h' ix"
  by (fastforce simp add: indexOk_def keeps_def)

lemma membersOk_update:
  assumes "ps = [] \<or> membersOk h c ps" "a < length h" "pid (h ! a) = k" "room (h ! a) = c"
  shows "membersOk h c (AList.update k a ps)"
proof -
  have d: "distinct (map fst (AList.update k a ps))"
    using assms(1) by (auto simp add: membersOk_def distinct_update)
  have "\<forall>(k', a')\<in>set (AList.update k a ps). a' < length h \<and> pid (h ! a') = k' \<and> room (h ! a') = c"
    using set_update_subset [of k a ps] assms by (fastforce simp add: membersOk_def)
  then show ?thesis using d by (simp add: membersOk_def)
qed

lemma membersOk_delete:
  assumes "membersOk h c ps" "AList.delete k ps \<noteq> []"
  shows "membersOk h c (AList.delete k ps)"
proof -
  have "\<forall>(k', a')\<in>set (AList.delete k ps). a' < length h \<and> pid (h ! a') = k' \<and> room (h ! a') = c"
    using set_delete_subset [of k ps] assms(1) by (fastforce simp add: membersOk_def)
  then show ?thesis using assms by (simp add: membersOk_def distinct_delete)
qed

lemma indexOk_update:
  assumes "indexOk h ix" "a < length h" "pid (h ! a) = k"
  shows "indexOk h (AList.update k a ix)"
  using set_update_subset [of k a ix] assms by (fastforce simp add: indexOk_def)

lemma indexOk_delete: "indexOk h ix \<Longrightarrow> indexOk h (AList.delete k ix)"
  using set_delete_subset [of k ix] by (fastforce simp add: indexOk_def)

lemma indexOk_lookup: "indexOk h ix \<Longrightarrow> map_of ix k = Some a \<Longrightarrow> a < length h \<and> pid (h ! a) = k"
  by (auto simp add: indexOk_def dest: map_of_SomeD)

text \<open>Replacing or deleting a registry entry.\<close>

lemma rooms_update_all:
  assumes "\<forall>(c, r)\<in>set rs. P c r" "P c0 r0"
  shows "\<forall>(c, r)\<in>set (AList.update c0 r0 rs). P c r"
  using set_update_subset [of c0 r0 rs] assms by fastforce

lemma rooms_delete_all:
  assumes "\<forall>(c, r)\<in>set rs. P c r"
  shows "\<forall>(c, r)\<in>set (AList.delete c0 rs). P c r"
  using set_delete_subset [of c0 rs] assms by fastforce

lemma rooms_lookup: "\<forall>(c, r)\<in>set rs. P c r \<Longrightarrow> map_of rs c = Some r \<Longrightarrow> P c r"
  by (auto dest: map_of_SomeD)

lemma wf_rooms_keeps:
  "wellFormed st \<Longrightarrow> keeps (heap st) h' \<Longrightarrow> \<forall>(c, r)\<in>set (rooms st). membersOk h' c (players r)"
  by (fastforce simp add: wellFormed_def intro: membersOk_keeps)

lemma wfI:
  "indexOk (heap st) (pindex st) \<Longrightarrow>
   \<forall>(c, r)\<in>set (rooms st). membersOk (heap st) c (players r) \<Longrightarrow> wellFormed st"
  by (simp add: wellFormed_def)

lemma wf_createRoom: "wellFormed st \<Longrightarrow> wellFormed (createRoom sock c nm st)"
proof -
  assume w: "wellFormed st"
  let ?h = "heap st @ [newPlayer sock nm c]"
  let ?r = "\<lparr>code = c, players = [(sock, length (heap st))], gameState = Lobby, round = 1,
             maxPlayers = 6, hostId = sock, wordPair = None, votes = [],
             revealedPlayers = [], results = None\<rparr>"
  have eq: "createRoom sock c nm st =
     st\<lparr>rooms := AList.update c ?r (rooms st),
        pindex := AList.update sock (length (heap st)) (pindex st), heap := ?h\<rparr>"
    by (simp add: createRoom_def Let_def)
  have i0: "indexOk ?h (pindex st)"
    using w by (intro indexOk_keeps [where h = "heap st" and h' = "?h"]) (simp_all add: wellFormed_def)
  have ix: "indexOk ?h (AList.update sock (length (heap st)) (pindex st))"
    using i0 by (rule indexOk_update) (simp_all add: newPlayer_def)
  have new: "membersOk ?h c (players ?r)"
    using membersOk_update [of "[]" ?h c "length (heap st)" sock] by (simp add: newPlayer_def)
  have old: "\<forall>(c, r)\<in>set (rooms st). membersOk ?h c (players r)"
    using w by (rule wf_rooms_keeps) simp
  have all: "\<forall>(c', r)\<in>set (AList.update c ?r (rooms st)). membersOk ?h c' (players r)"
    using old new by (rule rooms_update_all)
  show ?thesis
    unfolding eq by (rule wfI) (simp_all add: ix all)
qed

lemma wf_step:
  assumes "wellFormed st" "keeps (heap st) (heap st')" "indexOk (heap st') (pindex st')"
    "rooms st' = AList.update c r' (rooms st)" "membersOk (heap st') c (players r')"
  shows "wellFormed st'"
proof (rule wfI)
  show "indexOk (heap st') (pindex st')" by (rule assms(3))
  have old: "\<forall>(c, r)\<in>set (rooms st). membersOk (heap st') c (players r)"
    using assms(1,2) by (rule wf_rooms_keeps)
  show "\<forall>(c, r)\<in>set (rooms st'). membersOk (heap st') c (players r)"
    unfolding assms(4) using old assms(5) by (rule rooms_update_all)
qed

lemma wf_step_delete:
  assumes "wellFormed st" "heap st' = heap st" "indexOk (heap st) (pindex st')"
    "rooms st' = AList.delete c (rooms st)"
  shows "wellFormed st'"
proof (rule wfI)
  show "indexOk (heap st') (pindex st')" using assms(2,3) by simp
  have old: "\<forall>(c, r)\<in>set (rooms st). membersOk (heap st') c (players r)"
    using assms(1,2) by (simp add: wellFormed_def)
  show "\<forall>(c, r)\<in>set (rooms st'). membersOk (heap st') c (players r)"
    unfolding assms(4) using old by (rule rooms_delete_all)
qed

lemma wf_index: "wellFormed st \<Longrightarrow> map_of (pindex st) k = Some a \<Longrightarrow> a < length (heap st) \<and> pid (heap st ! a) = k"
  using indexOk_lookup [of "heap st" "pindex st" k a] by (simp add: wellFormed_def)

lemma wf_room: "wellFormed st \<Longrightarrow> map_of (rooms st) c = Some r \<Longrightarrow> membersOk (heap st) c (players r)"
  by (auto simp add: wellFormed_def dest: map_of_SomeD)

lemma membersOk_lookup:
  "membersOk h c ps \<Longrightarrow> (k, a) \<in> set ps \<Longrightarrow>
   map_of ps k = Some a \<and> a < length h \<and> pid (h ! a) = k \<and> room (h ! a) = c"
  by (auto simp add: membersOk_def)

lemma membersOk_addrs: "membersOk h c ps \<Longrightarrow> distinct (map snd ps)"
proof -
  assume m: "membersOk h c ps"
  have "inj_on snd (set ps)"
  proof (rule inj_onI)
    fix x y assume xy: "x \<in> set ps" "y \<in> set ps" "snd x = snd y"
    obtain k1 a1 where x: "x = (k1, a1)" by (cases x)
    obtain k2 a2 where y: "y = (k2, a2)" by (cases y)
    have "pid (h ! a1) = k1" using membersOk_lookup [OF m, of k1 a1] xy(1) x by simp
    moreover have "pid (h ! a2) = k2" using membersOk_lookup [OF m, of k2 a2] xy(2) y by simp
    ultimately show "x = y" using xy(3) x y by simp
  qed
  moreover have "distinct ps" using m by (auto simp add: membersOk_def distinct_map)
  ultimately show ?thesis by (simp add: distinct_map)
qed

lemma wf_joinRoom: "wellFormed st \<Longrightarrow> wellFormed (snd (joinRoom sock c nm st))"
proof (cases "fst (joinRoom sock c nm st)")
  case (Some e)
  assume "wellFormed st"
  then show ?thesis using joinRoom_error_unchanged [of sock c nm st] Some by simp
next
  case None
  assume w: "wellFormed st"
  let ?h = "heap st @ [newPlayer sock nm c]"
  from joinRoom_success [OF None] obtain r where
    rm: "map_of (rooms st) c = Some r" and
    eq: "snd (joinRoom sock c nm st) =
         st\<lparr>rooms := AList.update c
                        (r\<lparr>players := AList.update sock (length (heap st)) (players r)\<rparr>)
                        (rooms st),
            pindex := AList.update sock (length (heap st)) (pindex st),
            heap := ?h\<rparr>"
    by blast
  have i0: "indexOk ?h (pindex st)"
    using w by (intro indexOk_keeps [where h = "heap st" and h' = "?h"]) (simp_all add: wellFormed_def)
  have ix: "indexOk ?h (AList.update sock (length (heap st)) (pindex st))"
    using i0 by (rule indexOk_update) (simp_all add: newPlayer_def)
  have m0: "membersOk ?h c (players r)"
    using wf_room [OF w rm] by (intro membersOk_keeps [where h = "heap st" and h' = "?h"]) simp_all
  have m: "membersOk ?h c (AList.update sock (length (heap st)) (players r))"
    using m0 by (intro membersOk_update) (simp_all add: newPlayer_def)
  show ?thesis
    unfolding eq
    by (rule wf_step [OF w, where c = c
          and r' = "r\<lparr>players := AList.update sock (length (heap st)) (players r)\<rparr>"])
       (simp_all add: ix m)
qed

lemma startGame_noop:
  "callerRoom st sock = None \<or> (\<exists>r. callerRoom st sock = Some r \<and> hostId r \<noteq> sock) \<Longrightarrow>
   startGame sock i j st = st"
  by (auto simp add: startGame_def callerRoom_def split: option.splits)

lemma startGame_effect:
  assumes "map_of (pindex st) sock = Some pa"
    and "map_of (rooms st) (room (heap st ! pa)) = Some r"
    and "hostId r = sock"
  shows "startGame sock i j st =
     st\<lparr>rooms := AList.update (room (heap st ! pa))
                   (r\<lparr>wordPair := Some (WORD_PAIRS ! j), gameState := Assigning,
                      players := fst (snd (assignRoles i (WORD_PAIRS ! j) (map snd (players r)) 0
                                     (heap st, players r, pindex st)))\<rparr>) (rooms st),
        pindex := snd (snd (assignRoles i (WORD_PAIRS ! j) (map snd (players r)) 0
                                     (heap st, players r, pindex st))),
        heap := fst (assignRoles i (WORD_PAIRS ! j) (map snd (players r)) 0
                                     (heap st, players r, pindex st))\<rparr>"
  using assms by (simp add: startGame_def Let_def split_beta)

lemma assignRoles_ix_set:
  "(k, a) \<in> set (snd (snd (assignRoles i wp as n (h, rp, ix)))) \<Longrightarrow>
   (k, a) \<in> set ix \<or> (a \<in> set as \<and> pid (h ! a) = k)"
proof (induction as arbitrary: n h rp ix)
  case Nil
  then show ?case by simp
next
  case (Cons b as)
  from Cons.prems have
    "(k, a) \<in> set (snd (snd (assignRoles i wp as (Suc n)
       (h[b := assigned i wp n (h ! b)], AList.update (pid (h ! b)) b rp,
        AList.update (pid (h ! b)) b ix))))"
    by (simp add: assignRoles_Cons del: assignRoles.simps(2))
  from Cons.IH [OF this] show ?case
    using set_update_subset [of "pid (h ! b)" b ix] by (auto simp add: nth_upd split: if_splits)
qed

lemma membersOk_rp:
  assumes "membersOk h c ps"
  shows "fst (snd (assignRoles i wp (map snd ps) n (h, ps, ix))) = ps"
proof (rule assignRoles_rp)
  show "\<forall>a\<in>set (map snd ps). map_of ps (pid (h ! a)) = Some a"
    using membersOk_lookup [OF assms] by fastforce
qed

lemma wf_startGame: "wellFormed st \<Longrightarrow> wellFormed (startGame sock i j st)"
proof (cases "map_of (pindex st) sock")
  case None
  assume "wellFormed st"
  then show ?thesis using None by (simp add: startGame_def)
next
  case (Some pa)
  assume w: "wellFormed st"
  show ?thesis
  proof (cases "map_of (rooms st) (room (heap st ! pa))")
    case None
    then show ?thesis using w Some by (simp add: startGame_def)
  next
    case rm: (Some r)
    show ?thesis
    proof (cases "hostId r = sock")
      case False
      then show ?thesis using w Some rm by (simp add: startGame_def)
    next
      case True
      let ?c = "room (heap st ! pa)"
      let ?res = "assignRoles i (WORD_PAIRS ! j) (map snd (players r)) 0
                    (heap st, players r, pindex st)"
      note eq = startGame_effect [OF Some rm True, of i j]
      have mo: "membersOk (heap st) ?c (players r)" by (rule wf_room [OF w rm])
      have rp: "fst (snd ?res) = players r" by (rule membersOk_rp [OF mo])
      have k: "keeps (heap st) (fst ?res)" by simp
      have ix: "indexOk (fst ?res) (snd (snd ?res))"
        unfolding indexOk_def
      proof (intro ballI, clarify)
        fix k a assume "(k, a) \<in> set (snd (snd ?res))"
        from assignRoles_ix_set [OF this]
        have "a < length (heap st) \<and> pid (heap st ! a) = k"
          using w membersOk_lookup [OF mo] by (fastforce simp add: wellFormed_def indexOk_def)
        then show "a < length (fst ?res) \<and> pid (fst ?res ! a) = k"
          by (simp add: assignRoles_fields)
      qed
      have m: "membersOk (fst ?res) ?c (players r)"
        using k mo by (rule membersOk_keeps)
      show ?thesis
        unfolding eq
        by (rule wf_step [OF w, where c = ?c
              and r' = "r\<lparr>wordPair := Some (WORD_PAIRS ! j), gameState := Assigning,
                          players := fst (snd ?res)\<rparr>"])
           (simp_all add: ix m rp)
    qed
  qed
qed

lemma playerReady_effect:
  assumes "map_of (pindex st) sock = Some pa"
    and "map_of (rooms st) (room (heap st ! pa)) = Some r"
  shows "playerReady sock st =
     st\<lparr>rooms := AList.update (room (heap st ! pa))
          (if list_all (\<lambda>(k, a). isReady ((heap st)[pa := (heap st ! pa)\<lparr>isReady := True\<rparr>] ! a))
                (AList.update sock pa (players r))
           then r\<lparr>players := AList.update sock pa (players r), gameState := Discussion,
                  votes := []\<rparr>
           else r\<lparr>players := AList.update sock pa (players r)\<rparr>) (rooms st),
        heap := (heap st)[pa := (heap st ! pa)\<lparr>isReady := True\<rparr>]\<rparr>"
  using assms by (simp add: playerReady_def Let_def)

lemma wf_playerReady: "wellFormed st \<Longrightarrow> wellFormed (playerReady sock st)"
proof (cases "map_of (pindex st) sock")
  case None
  assume "wellFormed st"
  then show ?thesis using None by (simp add: playerReady_def)
next
  case (Some pa)
  assume w: "wellFormed st"
  show ?thesis
  proof (cases "map_of (rooms st) (room (heap st ! pa))")
    case None
    then show ?thesis using w Some by (simp add: playerReady_def)
  next
    case rm: (Some r)
    let ?c = "room (heap st ! pa)"
    let ?h = "(heap st)[pa := (heap st ! pa)\<lparr>isReady := True\<rparr>]"
    let ?r = "(if list_all (\<lambda>(k, a). isReady (?h ! a)) (AList.update sock pa (players r))
           then r\<lparr>players := AList.update sock pa (players r), gameState := Discussion,
                  votes := []\<rparr>
           else r\<lparr>players := AList.update sock pa (players r)\<rparr>)"
    note eq = playerReady_effect [OF Some rm]
    have k: "keeps (heap st) ?h" by (rule keeps_upd) simp_all
    have pa: "pa < length (heap st)" "pid (heap st ! pa) = sock"
      using wf_index [OF w Some] by simp_all
    have ix: "indexOk ?h (pindex st)"
      using k w by (intro indexOk_keeps [where h = "heap st" and h' = ?h]) (simp_all add: wellFormed_def)
    have m0: "membersOk ?h ?c (players r)"
      using k wf_room [OF w rm] by (rule membersOk_keeps)
    have m: "membersOk ?h ?c (AList.update sock pa (players r))"
      using m0 pa by (intro membersOk_update) (simp_all add: nth_upd)
    have pl: "players ?r = AList.update sock pa (players r)" by simp
    show ?thesis
      unfolding eq
      by (rule wf_step [OF w, where c = ?c and r' = ?r]) (simp_all only: pl, simp_all add: ix m k)
  qed
qed

lemma calculateResults_fst:
  "fst (calculateResults h r) =
     updateScores (shadowCaught (the (results (snd (calculateResults h r)))))
       (map snd (players r)) h"
  by (simp add: calculateResults_def Let_def split_beta)

lemma calculateResults_snd:
  "snd (calculateResults h r) = r\<lparr>results := results (snd (calculateResults h r))\<rparr>"
  by (simp add: calculateResults_def Let_def split_beta)

lemma calculateResults_players [simp]:
  "players (snd (calculateResults h r)) = players r"
  "gameState (snd (calculateResults h r)) = gameState r"
  "maxPlayers (snd (calculateResults h r)) = maxPlayers r"
  by (simp_all add: calculateResults_def Let_def split_beta)

lemma keeps_calculateResults [simp]: "keeps h (fst (calculateResults h r))"
  by (simp add: calculateResults_fst)

lemma submitVote_effect:
  assumes "map_of (pindex st) sock = Some pa"
    and "map_of (rooms st) (room (heap st ! pa)) = Some r"
    and "gameState r = Discussion"
  shows "submitVote sock t st =
     (if length (AList.update sock t (votes r)) = length (players r)
      then st\<lparr>rooms := AList.update (room (heap st ! pa))
                  (snd (calculateResults (heap st)
                     (r\<lparr>votes := AList.update sock t (votes r), gameState := Results\<rparr>)))
                  (rooms st),
              heap := fst (calculateResults (heap st)
                     (r\<lparr>votes := AList.update sock t (votes r), gameState := Results\<rparr>))\<rparr>
      else st\<lparr>rooms := AList.update (room (heap st ! pa))
                  (r\<lparr>votes := AList.update sock t (votes r)\<rparr>) (rooms st)\<rparr>)"
  using assms by (simp add: submitVote_def Let_def split_beta)

lemma wf_submitVote: "wellFormed st \<Longrightarrow> wellFormed (submitVote sock t st)"
proof (cases "map_of (pindex st) sock")
  case None
  assume "wellFormed st"
  then show ?thesis using None by (simp add: submitVote_def)
next
  case (Some pa)
  assume w: "wellFormed st"
  show ?thesis
  proof (cases "map_of (rooms st) (room (heap st ! pa))")
    case None
    then show ?thesis using w Some by (simp add: submitVote_def)
  next
    case rm: (Some r)
    show ?thesis
    proof (cases "gameState r = Discussion")
      case False
      then show ?thesis using w Some rm by (simp add: submitVote_def)
    next
      case True
      let ?c = "room (heap st ! pa)"
      let ?r1 = "r\<lparr>votes := AList.update sock t (votes r), gameState := Results\<rparr>"
      let ?h = "fst (calculateResults (heap st) ?r1)"
      note eq = submitVote_effect [OF Some rm True, of t]
      have mo: "membersOk (heap st) ?c (players r)" by (rule wf_room [OF w rm])
      show ?thesis
      proof (cases "length (AList.update sock t (votes r)) = length (players r)")
        case all: True
        have ix: "indexOk ?h (pindex st)"
          using w by (intro indexOk_keeps [where h = "heap st" and h' = ?h]) (simp_all add: wellFormed_def)
        have m: "membersOk ?h ?c (players r)"
          using mo by (intro membersOk_keeps [where h = "heap st" and h' = ?h]) simp_all
        show ?thesis
          unfolding eq using all
          by (intro wf_step [OF w, where c = ?c and r' = "snd (calculateResults (heap st) ?r1)"])
             (simp_all add: ix m)
      next
        case notall: False
        show ?thesis
          unfolding eq using notall w mo
          by (intro wf_step [OF w, where c = ?c
                and r' = "r\<lparr>votes := AList.update sock t (votes r)\<rparr>"])
             (simp_all add: wellFormed_def)
      qed
    qed
  qed
qed

lemma nextRound_effect:
  assumes "map_of (pindex st) sock = Some pa"
    and "map_of (rooms st) (room (heap st ! pa)) = Some r"
    and "hostId r = sock"
  shows "nextRound sock st =
     st\<lparr>rooms := AList.update (room (heap st ! pa))
                   (r\<lparr>round := round r + 1, gameState := Lobby, revealedPlayers := [],
                      votes := []\<rparr>) (rooms st),
        heap := resetPlayers (map snd (players r)) (heap st)\<rparr>"
  using assms by (simp add: nextRound_def)

lemma wf_nextRound: "wellFormed st \<Longrightarrow> wellFormed (nextRound sock st)"
proof (cases "map_of (pindex st) sock")
  case None
  assume "wellFormed st"
  then show ?thesis using None by (simp add: nextRound_def)
next
  case (Some pa)
  assume w: "wellFormed st"
  show ?thesis
  proof (cases "map_of (rooms st) (room (heap st ! pa))")
    case None
    then show ?thesis using w Some by (simp add: nextRound_def)
  next
    case rm: (Some r)
    show ?thesis
    proof (cases "hostId r = sock")
      case False
      then show ?thesis using w Some rm by (simp add: nextRound_def)
    next
      case True
      let ?c = "room (heap st ! pa)"
      let ?h = "resetPlayers (map snd (players r)) (heap st)"
      note eq = nextRound_effect [OF Some rm True]
      have ix: "indexOk ?h (pindex st)"
        using w by (intro indexOk_keeps [where h = "heap st" and h' = ?h]) (simp_all add: wellFormed_def)
      have m: "membersOk ?h ?c (players r)"
        using wf_room [OF w rm]
        by (intro membersOk_keeps [where h = "heap st" and h' = ?h]) simp_all
      show ?thesis
        unfolding eq
        by (intro wf_step [OF w, where c = ?c
              and r' = "r\<lparr>round := round r + 1, gameState := Lobby, revealedPlayers := [],
                          votes := []\<rparr>"])
           (simp_all add: ix m)
    qed
  qed
qed

lemma revealRole_effect:
  assumes "map_of (pindex st) sock = Some pa"
    and "map_of (rooms st) (room (heap st ! pa)) = Some r"
    and "hostId r = sock"
  shows "revealRole sock t st =
     st\<lparr>rooms := AList.update (room (heap st ! pa))
                   (r\<lparr>revealedPlayers := set_add t (revealedPlayers r)\<rparr>) (rooms st)\<rparr>"
  using assms by (simp add: revealRole_def)

lemma wf_revealRole: "wellFormed st \<Longrightarrow> wellFormed (revealRole sock t st)"
proof (cases "map_of (pindex st) sock")
  case None
  assume "wellFormed st"
  then show ?thesis using None by (simp add: revealRole_def)
next
  case (Some pa)
  assume w: "wellFormed st"
  show ?thesis
  proof (cases "map_of (rooms st) (room (heap st ! pa))")
    case None
    then show ?thesis using w Some by (simp add: revealRole_def)
  next
    case rm: (Some r)
    show ?thesis
    proof (cases "hostId r = sock")
      case False
      then show ?thesis using w Some rm by (simp add: revealRole_def)
    next
      case True
      note eq = revealRole_effect [OF Some rm True]
      show ?thesis
        unfolding eq using w wf_room [OF w rm]
        by (intro wf_step [OF w, where c = "room (heap st ! pa)"
              and r' = "r\<lparr>revealedPlayers := set_add t (revealedPlayers r)\<rparr>"])
           (simp_all add: wellFormed_def)
    qed
  qed
qed

lemma wf_leaveRoom: "wellFormed st \<Longrightarrow> wellFormed (leaveRoom sock st)"
proof (cases "map_of (pindex st) sock")
  case None
  assume "wellFormed st"
  then show ?thesis using None by (simp add: leaveRoom_def)
next
  case (Some pa)
  assume w: "wellFormed st"
  show ?thesis
  proof (cases "map_of (rooms st) (room (heap st ! pa))")
    case None
    then show ?thesis using w Some by (simp add: leaveRoom_def)
  next
    case rm: (Some r)
    have ix: "indexOk (heap st) (AList.delete sock (pindex st))"
      using w by (intro indexOk_delete) (simp add: wellFormed_def)
    show ?thesis
    proof (cases "AList.delete sock (players r)")
      case Nil
      show ?thesis
        unfolding leaveRoom_last [OF Some rm Nil]
        by (rule wf_step_delete [OF w, where c = "room (heap st ! pa)"]) (simp_all add: ix)
    next
      case (Cons ka rest)
      obtain k a where ka: "ka = (k, a)" by (cases ka)
      have d: "AList.delete sock (players r) = (k, a) # rest" using Cons ka by simp
      have m: "membersOk (heap st) (room (heap st ! pa)) (AList.delete sock (players r))"
        using wf_room [OF w rm] d by (intro membersOk_delete) simp_all
      show ?thesis
        unfolding leaveRoom_rest [OF Some rm d]
        by (rule wf_step [OF w, where c = "room (heap st ! pa)"
              and r' = "r\<lparr>players := AList.delete sock (players r),
                      hostId := (if hostId r = sock then k else hostId r)\<rparr>"])
           (simp_all add: ix m)
    qed
  qed
qed

lemma disconnect_leaveRoom: "disconnect sock st = leaveRoom sock st"
  by (simp add: leaveRoom_def disconnect_def)

lemma wf_init: "wellFormed init"
  by (simp add: wellFormed_def init_def indexOk_def)

lemma wf_step_event: "wellFormed st \<Longrightarrow> wellFormed (step e st)"
  by (cases e)
     (simp_all add: wf_createRoom wf_joinRoom wf_startGame wf_playerReady wf_submitVote
        wf_nextRound wf_revealRole wf_leaveRoom disconnect_leaveRoom)

lemma reachable_wf: "reachable st \<Longrightarrow> wellFormed st"
  by (induction rule: reachable.induct) (simp_all add: wf_init wf_step_event)

section \<open>Reachable states\<close>

lemma reachable_run: "reachable st \<Longrightarrow> admissibleRun es st \<Longrightarrow> reachable (run es st)"
  by (induction es arbitrary: st) (auto intro: reachable_step)

lemma reachable_examples:
  "reachable ex_created" "reachable ex_lobby" "reachable ex_assigning"
  "reachable ex_two_ready" "reachable ex_discussion" "reachable ex_two_votes"
  "reachable ex_results" "reachable ex_next"
proof -
  show a: "reachable ex_created"
    unfolding ex_created_def by (rule reachable_run [OF reachable_init]) simp
  show b: "reachable ex_lobby"
    unfolding ex_lobby_def by (rule reachable_run [OF a]) simp
  show c: "reachable ex_assigning"
    unfolding ex_assigning_def
    by (rule reachable_run [OF b]) (simp add: ex_defs handler_defs)
  show d: "reachable ex_two_ready"
    unfolding ex_two_ready_def by (rule reachable_run [OF c]) simp
  show e: "reachable ex_discussion"
    unfolding ex_discussion_def by (rule reachable_run [OF d]) simp
  show f: "reachable ex_two_votes"
    unfolding ex_two_votes_def by (rule reachable_run [OF e]) simp
  show g: "reachable ex_results"
    unfolding ex_results_def by (rule reachable_run [OF f]) simp
  show "reachable ex_next"
    unfolding ex_next_def by (rule reachable_run [OF g]) simp
qed

section \<open>Leaving the assigning phase\<close>

text \<open>
  Claim C10, as the code has it. In a reachable state, when the caller's room is in the
  \<open>assigning\<close> phase and every member other than the caller is ready, \<open>playerReady\<close>
  puts the room into the \<open>discussion\<close> phase with an empty votes map; the readiness
  flags are not cleared: after the call every member of the room is ready.
\<close>

theorem playerReady_last:
  assumes "reachable st"
    and "map_of (pindex st) sock = Some pa"
    and "map_of (rooms st) (room (heap st ! pa)) = Some r"
    and "gameState r = Assigning"
    and "\<forall>(k, a)\<in>set (players r). a \<noteq> pa \<longrightarrow> isReady (heap st ! a)"
  shows "\<exists>r'. map_of (rooms (playerReady sock st)) (room (heap st ! pa)) = Some r'
     \<and> gameState r' = Discussion \<and> votes r' = []
     \<and> players r' = AList.update sock pa (players r)
     \<and> (\<forall>(k, a)\<in>set (players r'). isReady (heap (playerReady sock st) ! a))"
proof -
  let ?h = "(heap st)[pa := (heap st ! pa)\<lparr>isReady := True\<rparr>]"
  let ?ps = "AList.update sock pa (players r)"
  have pa: "pa < length (heap st)"
    using wf_index [OF reachable_wf [OF assms(1)] assms(2)] by simp
  have ready: "\<forall>(k, a)\<in>set ?ps. isReady (?h ! a)"
  proof (intro ballI, clarify)
    fix k a assume "(k, a) \<in> set ?ps"
    then have "(k, a) = (sock, pa) \<or> (k, a) \<in> set (players r)"
      using set_update_subset [of sock pa "players r"] by auto
    then show "isReady (?h ! a)"
      using pa assms(5) by (cases "a = pa") (auto simp add: nth_upd)
  qed
  then have all: "list_all (\<lambda>(k, a). isReady (?h ! a)) ?ps"
    by (simp add: list_all_iff)
  show ?thesis
    using ready
    by (simp add: playerReady_effect [OF assms(2,3)] all update_conv')
qed

text \<open>In the example Ann and Bob are ready and Cy marks ready last.\<close>

theorem playerReady_last_witness:
  "reachable ex_two_ready
 \<and> map_of (pindex ex_two_ready) ''c'' = Some 2
 \<and> map_of (rooms ex_two_ready) (room (heap ex_two_ready ! 2)) = Some (snd (hd (rooms ex_two_ready)))
 \<and> gameState (snd (hd (rooms ex_two_ready))) = Assigning
 \<and> players (snd (hd (rooms ex_two_ready))) = [(''a'', 0), (''b'', 1), (''c'', 2)]
 \<and> isReady (heap ex_two_ready ! 0) \<and> isReady (heap ex_two_ready ! 1)
 \<and> (\<exists>r'. map_of (rooms (playerReady ''c'' ex_two_ready)) ''R'' = Some r'
       \<and> gameState r' = Discussion \<and> votes r' = []
       \<and> players r' = [(''a'', 0), (''b'', 1), (''c'', 2)]
       \<and> isReady (heap (playerReady ''c'' ex_two_ready) ! 0)
       \<and> isReady (heap (playerReady ''c'' ex_two_ready) ! 1)
       \<and> isReady (heap (playerReady ''c'' ex_two_ready) ! 2))"
proof -
  have h: "map_of (pindex ex_two_ready) ''c'' = Some 2"
    "map_of (rooms ex_two_ready) (room (heap ex_two_ready ! 2)) = Some (snd (hd (rooms ex_two_ready)))"
    "gameState (snd (hd (rooms ex_two_ready))) = Assigning"
    "\<forall>(k, a)\<in>set (players (snd (hd (rooms ex_two_ready)))). a \<noteq> 2 \<longrightarrow> isReady (heap ex_two_ready ! a)"
    by (simp_all add: ex_defs handler_defs)
  have v: "room (heap ex_two_ready ! 2) = ''R''"
    "players (snd (hd (rooms ex_two_ready))) = [(''a'', 0), (''b'', 1), (''c'', 2)]"
    "isReady (heap ex_two_ready ! 0)" "isReady (heap ex_two_ready ! 1)"
    by (simp_all add: ex_defs handler_defs)
  from playerReady_last [OF reachable_examples(4) h] obtain r' where
    r: "map_of (rooms (playerReady ''c'' ex_two_ready)) ''R'' = Some r'"
      "gameState r' = Discussion" "votes r' = []"
      "players r' = [(''a'', 0), (''b'', 1), (''c'', 2)]"
      "\<forall>(k, a)\<in>set (players r'). isReady (heap (playerReady ''c'' ex_two_ready) ! a)"
    by (auto simp add: v)
  have "isReady (heap (playerReady ''c'' ex_two_ready) ! 0)
      \<and> isReady (heap (playerReady ''c'' ex_two_ready) ! 1)
      \<and> isReady (heap (playerReady ''c'' ex_two_ready) ! 2)"
    using r(5) unfolding r(4) by simp
  then have "\<exists>r'. map_of (rooms (playerReady ''c'' ex_two_ready)) ''R'' = Some r'
       \<and> gameState r' = Discussion \<and> votes r' = []
       \<and> players r' = [(''a'', 0), (''b'', 1), (''c'', 2)]
       \<and> isReady (heap (playerReady ''c'' ex_two_ready) ! 0)
       \<and> isReady (heap (playerReady ''c'' ex_two_ready) ! 1)
       \<and> isReady (heap (playerReady ''c'' ex_two_ready) ! 2)"
    using r(1,2,3,4) by blast
  then show ?thesis
    using h(1,2,3) v(2,3,4) reachable_examples(4) by blast
qed

text \<open>Claim C10 as stated fails: in the same example all three readiness flags are set
  after the room has entered the \<open>discussion\<close> phase.\<close>

theorem playerReady_keeps_ready_counterexample:
  "roomSummary ex_two_ready = [(''R'', ''a'', Assigning, [(''a'', 0), (''b'', 1), (''c'', 2)])]
 \<and> map isReady (heap ex_two_ready) = [True, True, False]
 \<and> roomSummary (playerReady ''c'' ex_two_ready)
      = [(''R'', ''a'', Discussion, [(''a'', 0), (''b'', 1), (''c'', 2)])]
 \<and> map isReady (heap (playerReady ''c'' ex_two_ready)) = [True, True, True]"
  by (simp add: ex_defs handler_defs)

section \<open>Starting a game\<close>

lemma admissible_index:
  assumes "wellFormed st" "admissible st (StartGame sock i j)"
    and "map_of (pindex st) sock = Some pa"
    and "map_of (rooms st) (room (heap st ! pa)) = Some r"
  shows "i < length (players r)"
proof -
  have "players r \<noteq> []" using wf_room [OF assms(1,4)] by (simp add: membersOk_def)
  then show ?thesis using assms(2,3,4) by (simp add: callerRoom_def randomIndex_def)
qed

lemma startGame_heap_member:
  assumes "wellFormed st"
    and "map_of (pindex st) sock = Some pa"
    and "map_of (rooms st) (room (heap st ! pa)) = Some r"
    and "hostId r = sock"
    and "n < length (players r)"
  shows "heap (startGame sock i j st) ! snd (players r ! n)
           = assigned i (WORD_PAIRS ! j) n (heap st ! snd (players r ! n))"
proof -
  have mo: "membersOk (heap st) (room (heap st ! pa)) (players r)"
    by (rule wf_room [OF assms(1,3)])
  have d: "distinct (map snd (players r))" by (rule membersOk_addrs [OF mo])
  have "players r ! n \<in> set (players r)" using assms(5) by simp
  then have l: "snd (players r ! n) < length (heap st)"
    using membersOk_lookup [OF mo, of "fst (players r ! n)" "snd (players r ! n)"] by simp
  show ?thesis
    using assignRoles_member [OF d, of n "heap st" i "WORD_PAIRS ! j" 0 "players r" "pindex st"]
      assms(5) l
    by (simp add: startGame_effect [OF assms(2,3,4)])
qed

lemma startGame_room:
  assumes "wellFormed st"
    and "map_of (pindex st) sock = Some pa"
    and "map_of (rooms st) (room (heap st ! pa)) = Some r"
    and "hostId r = sock"
  shows "map_of (rooms (startGame sock i j st)) (room (heap st ! pa))
           = Some (r\<lparr>wordPair := Some (WORD_PAIRS ! j), gameState := Assigning\<rparr>)"
  using membersOk_rp [OF wf_room [OF assms(1,3)]]
  by (simp add: startGame_effect [OF assms(2,3,4)] update_conv')

text \<open>
  Claim C2, as the code has it. \<open>startGame\<close> leaves the state unchanged when the caller
  has no player object, or the room named in it is not registered, or the caller is not
  the host of that room. There is no other guard: neither the phase nor the number of
  members is looked at. When the guard is passed in a reachable state, with the random
  index drawn as \<open>Math.floor(Math.random() * n)\<close>, the room gets the chosen word pair
  and phase \<open>assigning\<close> and is otherwise unchanged; the member at the drawn index gets
  role \<open>shadow\<close> and the odd word, every other member gets role \<open>signal\<close> and the
  common word, and every member's readiness is reset.
\<close>

theorem startGame_outcome:
  "((callerRoom st sock = None \<or> (\<exists>r. callerRoom st sock = Some r \<and> hostId r \<noteq> sock))
      \<longrightarrow> startGame sock i j st = st)
 \<and> (\<forall>pa r. reachable st \<and> admissible st (StartGame sock i j)
        \<and> map_of (pindex st) sock = Some pa
        \<and> map_of (rooms st) (room (heap st ! pa)) = Some r \<and> hostId r = sock \<longrightarrow>
      map_of (rooms (startGame sock i j st)) (room (heap st ! pa))
        = Some (r\<lparr>wordPair := Some (WORD_PAIRS ! j), gameState := Assigning\<rparr>)
    \<and> i < length (players r)
    \<and> (\<forall>n<length (players r).
          role (heap (startGame sock i j st) ! snd (players r ! n))
            = Some (if n = i then Shadow else Signal)
        \<and> word (heap (startGame sock i j st) ! snd (players r ! n))
            = Some (if n = i then shadow (WORD_PAIRS ! j) else signal (WORD_PAIRS ! j))
        \<and> isReady (heap (startGame sock i j st) ! snd (players r ! n)) = False))"
proof (intro conjI allI impI; (elim conjE)?)
  assume "callerRoom st sock = None \<or> (\<exists>r. callerRoom st sock = Some r \<and> hostId r \<noteq> sock)"
  then show "startGame sock i j st = st" by (rule startGame_noop)
next
  fix pa r
  assume a: "reachable st" "admissible st (StartGame sock i j)"
    "map_of (pindex st) sock = Some pa"
    "map_of (rooms st) (room (heap st ! pa)) = Some r" "hostId r = sock"
  note w = reachable_wf [OF a(1)]
  show "map_of (rooms (startGame sock i j st)) (room (heap st ! pa))
        = Some (r\<lparr>wordPair := Some (WORD_PAIRS ! j), gameState := Assigning\<rparr>)"
    by (rule startGame_room [OF w a(3,4,5)])
  show "i < length (players r)"
    by (rule admissible_index [OF w a(2,3,4)])
  fix n assume n: "n < length (players r)"
  note m = startGame_heap_member [OF w a(3,4,5) n, of i j]
  show "role (heap (startGame sock i j st) ! snd (players r ! n))
            = Some (if n = i then Shadow else Signal)"
    by (simp add: m)
  show "word (heap (startGame sock i j st) ! snd (players r ! n))
            = Some (if n = i then shadow (WORD_PAIRS ! j) else signal (WORD_PAIRS ! j))"
    by (simp add: m)
  show "isReady (heap (startGame sock i j st) ! snd (players r ! n)) = False"
    by (simp add: m)
qed

text \<open>In the example Ann, the host, starts the game in the three-member lobby and Bob
  draws the odd word; a start issued by Bob changes nothing.\<close>

theorem startGame_outcome_witness:
  "reachable ex_lobby \<and> admissible ex_lobby (StartGame ''a'' 1 0)
 \<and> map_of (pindex ex_lobby) ''a'' = Some 0
 \<and> map_of (rooms ex_lobby) (room (heap ex_lobby ! 0)) = Some (snd (hd (rooms ex_lobby)))
 \<and> hostId (snd (hd (rooms ex_lobby))) = ''a''
 \<and> roomSummary (startGame ''a'' 1 0 ex_lobby)
      = [(''R'', ''a'', Assigning, [(''a'', 0), (''b'', 1), (''c'', 2)])]
 \<and> role (heap (startGame ''a'' 1 0 ex_lobby) ! 1) = Some Shadow
 \<and> word (heap (startGame ''a'' 1 0 ex_lobby) ! 1) = Some ''Vampire''
 \<and> role (heap (startGame ''a'' 1 0 ex_lobby) ! 2) = Some Signal
 \<and> word (heap (startGame ''a'' 1 0 ex_lobby) ! 2) = Some ''Garlic''
 \<and> callerRoom ex_lobby ''b'' = Some (snd (hd (rooms ex_lobby)))
 \<and> hostId (snd (hd (rooms ex_lobby))) \<noteq> ''b''
 \<and> startGame ''b'' 1 0 ex_lobby = ex_lobby"
proof -
  have h: "admissible ex_lobby (StartGame ''a'' 1 0)"
    "map_of (pindex ex_lobby) ''a'' = Some 0"
    "map_of (rooms ex_lobby) (room (heap ex_lobby ! 0)) = Some (snd (hd (rooms ex_lobby)))"
    "hostId (snd (hd (rooms ex_lobby))) = ''a''"
    by (simp_all add: ex_defs handler_defs)
  have g: "callerRoom ex_lobby ''b'' = Some (snd (hd (rooms ex_lobby)))"
    by (simp add: ex_defs handler_defs)
  have v: "roomSummary (startGame ''a'' 1 0 ex_lobby)
      = [(''R'', ''a'', Assigning, [(''a'', 0), (''b'', 1), (''c'', 2)])]"
    "players (snd (hd (rooms ex_lobby))) = [(''a'', 0), (''b'', 1), (''c'', 2)]"
    "WORD_PAIRS ! 0 = \<lparr>shadow = ''Vampire'', signal = ''Garlic''\<rparr>"
    by (simp_all add: ex_defs handler_defs)
  note t = startGame_outcome [of ex_lobby "''a''" 1 0]
  note u = startGame_outcome [of ex_lobby "''b''" 1 0]
  have e: "\<forall>n<3. role (heap (startGame ''a'' 1 0 ex_lobby) ! snd ([(''a'', 0), (''b'', 1), (''c'', 2)] ! n))
            = Some (if n = 1 then Shadow else Signal)
        \<and> word (heap (startGame ''a'' 1 0 ex_lobby) ! snd ([(''a'', 0::nat), (''b'', 1), (''c'', 2)] ! n))
            = Some (if n = 1 then ''Vampire'' else ''Garlic'')"
    using t [THEN conjunct2, rule_format, of 0 "snd (hd (rooms ex_lobby))"] h reachable_examples(2)
    by (simp add: v)
  have n: "startGame ''b'' 1 0 ex_lobby = ex_lobby"
    using u [THEN conjunct1] g h(4) by simp
  show ?thesis
    using h g v(1) n reachable_examples(2) e [rule_format, of 1] e [rule_format, of 2]
    by simp
qed

text \<open>Claim C2 as stated fails twice: the host of a room with one member starts a game,
  and the host of a room in the \<open>discussion\<close> phase starts a game again, which draws
  the roles anew.\<close>

theorem startGame_unguarded_counterexample:
  "roomSummary ex_created = [(''R'', ''a'', Lobby, [(''a'', 0)])]
 \<and> roomSummary (startGame ''a'' 0 0 ex_created) = [(''R'', ''a'', Assigning, [(''a'', 0)])]
 \<and> map role (heap (startGame ''a'' 0 0 ex_created)) = [Some Shadow]
 \<and> roomSummary ex_discussion
      = [(''R'', ''a'', Discussion, [(''a'', 0), (''b'', 1), (''c'', 2)])]
 \<and> map role (heap ex_discussion) = [Some Signal, Some Shadow, Some Signal]
 \<and> roomSummary (startGame ''a'' 0 0 ex_discussion)
      = [(''R'', ''a'', Assigning, [(''a'', 0), (''b'', 1), (''c'', 2)])]
 \<and> map role (heap (startGame ''a'' 0 0 ex_discussion)) = [Some Shadow, Some Signal, Some Signal]"
  by (simp add: ex_defs handler_defs)

section \<open>Scores\<close>

lemma score_createRoom:
  "b < length (heap st) \<Longrightarrow> score (heap (createRoom sock c nm st) ! b) = score (heap st ! b)"
  by (simp add: createRoom_def Let_def nth_append)

lemma score_joinRoom:
  "b < length (heap st) \<Longrightarrow> score (heap (snd (joinRoom sock c nm st)) ! b) = score (heap st ! b)"
  by (simp add: joinRoom_def Let_def nth_append split: option.splits)

lemma score_startGame: "score (heap (startGame sock i j st) ! b) = score (heap st ! b)"
  by (simp add: startGame_def Let_def split_beta assignRoles_fields split: option.splits)

lemma score_playerReady: "score (heap (playerReady sock st) ! b) = score (heap st ! b)"
  by (simp add: playerReady_def Let_def nth_upd split: option.splits)

lemma score_submitVote: "score (heap st ! b) \<le> score (heap (submitVote sock t st) ! b)"
  by (simp add: submitVote_def Let_def split_beta calculateResults_fst updateScores_mono
        split: option.splits)

lemma score_nextRound: "score (heap (nextRound sock st) ! b) = score (heap st ! b)"
  by (simp add: nextRound_def resetPlayers_fields split: option.splits)

lemma score_revealRole: "score (heap (revealRole sock t st) ! b) = score (heap st ! b)"
  by (simp add: revealRole_def split: option.splits)

lemma score_leaveRoom: "score (heap (leaveRoom sock st) ! b) = score (heap st ! b)"
  by (simp add: leaveRoom_def Let_def split: option.splits list.splits)

lemma score_step: "b < length (heap st) \<Longrightarrow> score (heap st ! b) \<le> score (heap (step e st) ! b)"
  by (cases e)
     (simp_all add: score_createRoom score_joinRoom score_startGame score_playerReady
        score_submitVote score_nextRound score_revealRole score_leaveRoom disconnect_leaveRoom)

lemma tally_heap:
  assumes "membersOk h c (players r)" "b < length h"
  shows "score (fst (calculateResults h r) ! b) =
     score (h ! b) +
       (if b \<in> snd ` set (players r)
        then reward (shadowCaught (the (results (snd (calculateResults h r))))) (role (h ! b))
        else 0)"
proof (cases "b \<in> snd ` set (players r)")
  case True
  then have "b \<in> set (map snd (players r))" by simp
  then show ?thesis
    using updateScores_member [OF membersOk_addrs [OF assms(1)] _ assms(2)] True
    by (simp add: calculateResults_fst)
next
  case False
  then have "b \<notin> set (map snd (players r))" by simp
  then show ?thesis using False by (simp add: calculateResults_fst updateScores_other)
qed

lemma results_Some: "\<exists>tl. results (snd (calculateResults h r)) = Some tl"
  by (simp add: calculateResults_def Let_def split_beta)

text \<open>
  Scoring, as far as the code keeps it. When a vote completes the votes map of a room
  in the \<open>discussion\<close> phase (in a reachable state), the room enters \<open>results\<close> and the
  tally changes scores only: if the shadow was caught, the score of every member with
  role \<open>signal\<close> grows by exactly 100 and no other score changes; if not, the score of
  every member with role \<open>shadow\<close> grows by exactly 200 and no other score changes;
  objects of other rooms are untouched. No event ever decreases the score held by a
  player object.
\<close>

theorem tally_scores:
  "(\<forall>pa r. reachable st \<and> map_of (pindex st) sock = Some pa
        \<and> map_of (rooms st) (room (heap st ! pa)) = Some r \<and> gameState r = Discussion
        \<and> length (AList.update sock t (votes r)) = length (players r) \<longrightarrow>
      (\<exists>r' tl. map_of (rooms (submitVote sock t st)) (room (heap st ! pa)) = Some r'
         \<and> gameState r' = Results \<and> players r' = players r \<and> results r' = Some tl
         \<and> (\<forall>b<length (heap st).
               role (heap (submitVote sock t st) ! b) = role (heap st ! b)
             \<and> score (heap (submitVote sock t st) ! b) =
                 score (heap st ! b) +
                   (if b \<in> snd ` set (players r)
                    then reward (shadowCaught tl) (role (heap st ! b)) else 0))))
 \<and> (\<forall>e b. b < length (heap st) \<longrightarrow> score (heap st ! b) \<le> score (heap (step e st) ! b))"
proof (intro conjI allI impI; (elim conjE)?)
  fix e b assume "b < length (heap st)"
  then show "score (heap st ! b) \<le> score (heap (step e st) ! b)" by (rule score_step)
next
  fix pa r
  assume a: "reachable st" "map_of (pindex st) sock = Some pa"
    "map_of (rooms st) (room (heap st ! pa)) = Some r" "gameState r = Discussion"
    "length (AList.update sock t (votes r)) = length (players r)"
  let ?r1 = "r\<lparr>votes := AList.update sock t (votes r), gameState := Results\<rparr>"
  let ?res = "calculateResults (heap st) ?r1"
  have mo: "membersOk (heap st) (room (heap st ! pa)) (players ?r1)"
    using wf_room [OF reachable_wf [OF a(1)] a(3)] by simp
  obtain tl where tl: "results (snd ?res) = Some tl" using results_Some by blast
  have eq: "submitVote sock t st =
      st\<lparr>rooms := AList.update (room (heap st ! pa)) (snd ?res) (rooms st), heap := fst ?res\<rparr>"
    using a(5) by (simp add: submitVote_effect [OF a(2,3,4)])
  have sc: "\<forall>b<length (heap st).
               role (fst ?res ! b) = role (heap st ! b)
             \<and> score (fst ?res ! b) =
                 score (heap st ! b) +
                   (if b \<in> snd ` set (players r)
                    then reward (shadowCaught tl) (role (heap st ! b)) else 0)"
  proof (intro allI impI)
    fix b assume b: "b < length (heap st)"
    show "role (fst ?res ! b) = role (heap st ! b)
             \<and> score (fst ?res ! b) =
                 score (heap st ! b) +
                   (if b \<in> snd ` set (players r)
                    then reward (shadowCaught tl) (role (heap st ! b)) else 0)"
      using tally_heap [OF mo b] tl by (simp add: calculateResults_fst updateScores_fields)
  qed
  show "\<exists>r' tl. map_of (rooms (submitVote sock t st)) (room (heap st ! pa)) = Some r'
         \<and> gameState r' = Results \<and> players r' = players r \<and> results r' = Some tl
         \<and> (\<forall>b<length (heap st).
               role (heap (submitVote sock t st) ! b) = role (heap st ! b)
             \<and> score (heap (submitVote sock t st) ! b) =
                 score (heap st ! b) +
                   (if b \<in> snd ` set (players r)
                    then reward (shadowCaught tl) (role (heap st ! b)) else 0))"
    apply (rule exI [of _ "snd ?res"])
    apply (rule exI [of _ tl])
    using sc tl apply (simp add: eq update_conv')
    done
qed

text \<open>In the example Cy casts the last vote. A vote for Bob, who holds the odd word,
  catches him and gives Ann and Cy 100 each; a vote for Cy herself eliminates Cy and
  gives Bob 200.\<close>

theorem tally_scores_witness:
  "reachable ex_two_votes \<and> map_of (pindex ex_two_votes) ''c'' = Some 2
 \<and> map_of (rooms ex_two_votes) (room (heap ex_two_votes ! 2)) = Some (snd (hd (rooms ex_two_votes)))
 \<and> gameState (snd (hd (rooms ex_two_votes))) = Discussion
 \<and> length (AList.update ''c'' ''b'' (votes (snd (hd (rooms ex_two_votes)))))
      = length (players (snd (hd (rooms ex_two_votes))))
 \<and> map role (heap ex_two_votes) = [Some Signal, Some Shadow, Some Signal]
 \<and> map score (heap ex_two_votes) = [0, 0, 0]
 \<and> map score (heap (submitVote ''c'' ''b'' ex_two_votes)) = [100, 0, 100]
 \<and> map score (heap (submitVote ''c'' ''c'' ex_two_votes)) = [0, 200, 0]
 \<and> score (heap ex_results ! 0) \<le> score (heap (step (NextRound ''a'') ex_results) ! 0)"
proof -
  have h: "map_of (pindex ex_two_votes) ''c'' = Some 2"
    "map_of (rooms ex_two_votes) (room (heap ex_two_votes ! 2)) = Some (snd (hd (rooms ex_two_votes)))"
    "gameState (snd (hd (rooms ex_two_votes))) = Discussion"
    "length (AList.update ''c'' ''b'' (votes (snd (hd (rooms ex_two_votes)))))
      = length (players (snd (hd (rooms ex_two_votes))))"
    by (simp_all add: ex_defs handler_defs)
  have v: "map role (heap ex_two_votes) = [Some Signal, Some Shadow, Some Signal]"
    "map score (heap ex_two_votes) = [0, 0, 0]"
    "map score (heap (submitVote ''c'' ''b'' ex_two_votes)) = [100, 0, 100]"
    "map score (heap (submitVote ''c'' ''c'' ex_two_votes)) = [0, 200, 0]"
    "length (heap ex_results) = 3"
    by (simp_all add: ex_defs handler_defs)
  note t = tally_scores [of ex_two_votes "''c''" "''b''"]
  have m: "score (heap ex_results ! 0) \<le> score (heap (step (NextRound ''a'') ex_results) ! 0)"
    by (rule tally_scores [of ex_results, THEN conjunct2, rule_format]) (simp add: v(5))
  have e: "\<exists>r' tl. map_of (rooms (submitVote ''c'' ''b'' ex_two_votes)) (room (heap ex_two_votes ! 2)) = Some r'
         \<and> gameState r' = Results"
    using t [THEN conjunct1, rule_format, of 2 "snd (hd (rooms ex_two_votes))"] h
      reachable_examples(6)
    by blast
  show ?thesis
    using h v(1,2,3,4) m e reachable_examples(6) by simp
qed

text \<open>Claim C5 says that no operation ever decreases a member's score. The code breaks
  it: \<open>joinRoom\<close> does not look whether the caller already is a member. After the round
  Ann has 100 points; back in the lobby her socket joins the room again (the lobby page
  of the client emits \<open>joinRoom\<close> when it is shown and from its rejoin button), and the
  member registered under her id is a new player object with score 0.\<close>

theorem rejoin_resets_score:
  "roomSummary ex_next = [(''R'', ''a'', Lobby, [(''a'', 0), (''b'', 1), (''c'', 2)])]
 \<and> memberScore ex_next ''R'' ''a'' = Some 100
 \<and> fst (joinRoom ''a'' ''R'' ''Ann'' ex_next) = None
 \<and> roomSummary (snd (joinRoom ''a'' ''R'' ''Ann'' ex_next))
      = [(''R'', ''a'', Lobby, [(''a'', 3), (''b'', 1), (''c'', 2)])]
 \<and> memberScore (snd (joinRoom ''a'' ''R'' ''Ann'' ex_next)) ''R'' ''a'' = Some 0"
  by (simp add: ex_defs handler_defs)

section \<open>Invariance in collision-free runs\<close>

lemma shadowCount_cong:
  "\<forall>(k, a)\<in>set ps. role (h' ! a) = role (h ! a) \<Longrightarrow> shadowCount h' ps = shadowCount h ps"
proof -
  assume a: "\<forall>(k, a)\<in>set ps. role (h' ! a) = role (h ! a)"
  have "filter (\<lambda>(k, a). role (h' ! a) = Some Shadow) ps
      = filter (\<lambda>(k, a). role (h ! a) = Some Shadow) ps"
    using a by (intro filter_cong) auto
  then show ?thesis by (simp add: shadowCount_def)
qed

lemma shadowCount_none:
  "\<forall>(k, a)\<in>set ps. role (h ! a) = None \<Longrightarrow> shadowCount h ps = 0"
  by (auto simp add: shadowCount_def filter_empty_conv)

lemma shadowCount_delete: "shadowCount h (AList.delete k ps) \<le> shadowCount h ps"
  unfolding shadowCount_def by (induction ps) (auto simp add: le_SucI)

lemma count_one:
  "i < length ps \<Longrightarrow> (\<forall>n<length ps. P (ps ! n) = (n = i)) \<Longrightarrow> length (filter P ps) = 1"
proof (induction ps arbitrary: i)
  case Nil
  then show ?case by simp
next
  case (Cons x xs)
  show ?case
  proof (cases i)
    case 0
    have "P x" using Cons.prems(2) 0 by auto
    moreover have "\<forall>n<length xs. \<not> P (xs ! n)"
    proof (intro allI impI)
      fix n assume "n < length xs"
      then have "P ((x # xs) ! Suc n) = (Suc n = i)" using Cons.prems(2) by auto
      then show "\<not> P (xs ! n)" using 0 by simp
    qed
    then have "filter P xs = []" by (auto simp add: filter_empty_conv in_set_conv_nth)
    ultimately show ?thesis by simp
  next
    case (Suc i')
    have "\<not> P x" using Cons.prems(2) Suc by auto
    moreover have "\<forall>n<length xs. P (xs ! n) = (n = i')"
    proof (intro allI impI)
      fix n assume "n < length xs"
      then have "P ((x # xs) ! Suc n) = (Suc n = i)" using Cons.prems(2) by auto
      then show "P (xs ! n) = (n = i')" using Suc by simp
    qed
    moreover have "i' < length xs" using Cons.prems(1) Suc by simp
    ultimately show ?thesis using Cons.IH [of i'] by simp
  qed
qed

lemma roomInv_cong:
  assumes "roomInv h r" "players r' = players r" "maxPlayers r' = maxPlayers r"
    "gameState r' = Lobby \<longrightarrow> gameState r = Lobby"
    "\<forall>(k, a)\<in>set (players r). role (h' ! a) = role (h ! a)"
  shows "roomInv h' r'"
proof -
  have "\<forall>(k, a)\<in>set (players r'). role (h' ! a) = role (h ! a)"
    using assms(2,5) by simp
  then have sc: "shadowCount h' (players r') = shadowCount h (players r)"
    using shadowCount_cong [of "players r'" h' h] assms(2) by simp
  have lo: "gameState r' = Lobby \<longrightarrow> (\<forall>(k, a)\<in>set (players r'). role (h' ! a) = None)"
    using assms(1,2,4,5) by (fastforce simp add: roomInv_def)
  show ?thesis
    using assms(1,2,3) sc lo by (simp add: roomInv_def)
qed

lemma roomInv_heap:
  assumes "roomInv h r" "\<forall>(k, a)\<in>set (players r). role (h' ! a) = role (h ! a)"
  shows "roomInv h' r"
  by (rule roomInv_cong [OF assms(1) _ _ _ assms(2)]) simp_all

text \<open>Objects of rooms registered under different codes are different.\<close>

lemma other_room_addr:
  assumes "wellFormed st" "map_of (rooms st) c = Some r" "map_of (rooms st) c' = Some r'" "c' \<noteq> c"
    "(k, a) \<in> set (players r')"
  shows "a \<notin> set (map snd (players r))"
proof
  assume "a \<in> set (map snd (players r))"
  then obtain k2 where "(k2, a) \<in> set (players r)" by auto
  then have "room (heap st ! a) = c"
    using membersOk_lookup [OF wf_room [OF assms(1,2)]] by blast
  moreover have "room (heap st ! a) = c'"
    using membersOk_lookup [OF wf_room [OF assms(1,3)] assms(5)] by blast
  ultimately show False using assms(4) by simp
qed

lemma linkedD:
  "linked st \<Longrightarrow> map_of (pindex st) k = Some a \<Longrightarrow>
   \<exists>r. map_of (rooms st) (room (heap st ! a)) = Some r \<and> map_of (players r) k = Some a"
  by (simp add: linked_def)

lemma roomsInvD: "roomsInv st \<Longrightarrow> map_of (rooms st) c = Some r \<Longrightarrow> roomInv (heap st) r"
  by (simp add: roomsInv_def)

text \<open>A step that replaces the room under \<open>c\<close> and keeps the roles of all other rooms.\<close>

lemma roomsInv_step:
  assumes "roomsInv st" "rooms st' = AList.update c r' (rooms st)" "roomInv (heap st') r'"
    and "\<And>c2 r2 k a. map_of (rooms st) c2 = Some r2 \<Longrightarrow> c2 \<noteq> c \<Longrightarrow>
           (k, a) \<in> set (players r2) \<Longrightarrow> role (heap st' ! a) = role (heap st ! a)"
  shows "roomsInv st'"
  unfolding roomsInv_def
proof (intro allI impI)
  fix c2 r2 assume l: "map_of (rooms st') c2 = Some r2"
  show "roomInv (heap st') r2"
  proof (cases "c2 = c")
    case True
    then show ?thesis using l assms(2,3) by (simp add: update_conv')
  next
    case False
    then have o: "map_of (rooms st) c2 = Some r2" using l assms(2) by (simp add: update_conv')
    have "\<forall>(k, a)\<in>set (players r2). role (heap st' ! a) = role (heap st ! a)"
      using assms(4) [OF o False] by auto
    then show ?thesis using roomsInvD [OF assms(1) o] by (rule roomInv_heap [rotated])
  qed
qed

lemma createRoom_eq:
  "createRoom sock c nm st =
     st\<lparr>rooms := AList.update c
          \<lparr>code = c, players = [(sock, length (heap st))], gameState = Lobby, round = 1,
             maxPlayers = 6, hostId = sock, wordPair = None, votes = [],
             revealedPlayers = [], results = None\<rparr> (rooms st),
        pindex := AList.update sock (length (heap st)) (pindex st),
        heap := heap st @ [newPlayer sock nm c]\<rparr>"
  by (simp add: createRoom_def Let_def)

lemma inv_createRoom:
  assumes w: "wellFormed st" and l: "linked st" and ri: "roomsInv st"
    and fresh: "map_of (rooms st) c = None"
  shows "linked (createRoom sock c nm st) \<and> roomsInv (createRoom sock c nm st)"
proof
  let ?st = "createRoom sock c nm st"
  show "linked ?st"
    unfolding linked_def
  proof (intro allI impI)
    fix k a assume ka: "map_of (pindex ?st) k = Some a"
    show "\<exists>r. map_of (rooms ?st) (room (heap ?st ! a)) = Some r \<and> map_of (players r) k = Some a"
    proof (cases "k = sock")
      case True
      then have "a = length (heap st)" using ka by (simp add: createRoom_eq update_conv')
      then show ?thesis using True by (simp add: createRoom_eq update_conv' newPlayer_def)
    next
      case False
      then have o: "map_of (pindex st) k = Some a" using ka by (simp add: createRoom_eq update_conv')
      from linkedD [OF l o] obtain r where
        r: "map_of (rooms st) (room (heap st ! a)) = Some r" "map_of (players r) k = Some a"
        by blast
      have ne: "room (heap st ! a) \<noteq> c" using r(1) fresh by auto
      have "a < length (heap st)" using wf_index [OF w o] by simp
      then show ?thesis using r ne by (simp add: createRoom_eq update_conv' nth_append)
    qed
  qed
  show "roomsInv ?st"
  proof (rule roomsInv_step [OF ri, where c = c])
    show "rooms ?st = AList.update c
          \<lparr>code = c, players = [(sock, length (heap st))], gameState = Lobby, round = 1,
             maxPlayers = 6, hostId = sock, wordPair = None, votes = [],
             revealedPlayers = [], results = None\<rparr> (rooms st)"
      by (simp add: createRoom_eq)
    show "roomInv (heap ?st) \<lparr>code = c, players = [(sock, length (heap st))], gameState = Lobby, round = 1,
             maxPlayers = 6, hostId = sock, wordPair = None, votes = [],
             revealedPlayers = [], results = None\<rparr>"
      by (simp add: roomInv_def createRoom_eq newPlayer_def shadowCount_def)
  next
    fix c2 r2 k a
    assume "map_of (rooms st) c2 = Some r2" "(k, a) \<in> set (players r2)"
    then have "a < length (heap st)" using membersOk_lookup [OF wf_room [OF w]] by blast
    then show "role (heap ?st ! a) = role (heap st ! a)"
      by (simp add: createRoom_eq nth_append)
  qed
qed

lemma linked_keep:
  assumes "linked st" "pindex st' = pindex st"
    "\<forall>a. room (heap st' ! a) = room (heap st ! a)"
    "rooms st' = AList.update c r' (rooms st)" "map_of (rooms st) c = Some r"
    "players r' = players r"
  shows "linked st'"
  unfolding linked_def
proof (intro allI impI)
  fix k a assume "map_of (pindex st') k = Some a"
  then have o: "map_of (pindex st) k = Some a" using assms(2) by simp
  from linkedD [OF assms(1) o] obtain r2 where
    r2: "map_of (rooms st) (room (heap st ! a)) = Some r2" "map_of (players r2) k = Some a"
    by blast
  show "\<exists>r. map_of (rooms st') (room (heap st' ! a)) = Some r \<and> map_of (players r) k = Some a"
  proof (cases "room (heap st ! a) = c")
    case True
    then have "r2 = r" using r2(1) assms(5) by simp
    then show ?thesis using True r2(2) assms(3,4,6) by (simp add: update_conv')
  next
    case False
    then show ?thesis using r2 assms(3,4) by (simp add: update_conv')
  qed
qed

lemma length_update_le: "length (AList.update k v al) \<le> Suc (length al)"
  by (induction al) auto

lemma inv_joinRoom:
  assumes w: "wellFormed st" and l: "linked st" and ri: "roomsInv st"
  shows "linked (snd (joinRoom sock c nm st)) \<and> roomsInv (snd (joinRoom sock c nm st))"
proof (cases "fst (joinRoom sock c nm st)")
  case (Some e)
  then show ?thesis using l ri joinRoom_error_unchanged [of sock c nm st] by simp
next
  case None
  let ?st = "snd (joinRoom sock c nm st)"
  let ?a = "length (heap st)"
  from joinRoom_success [OF None] obtain r where
    rm: "map_of (rooms st) c = Some r" and lt: "length (players r) < maxPlayers r"
    and lob: "gameState r = Lobby" and
    eq: "?st = st\<lparr>rooms := AList.update c (r\<lparr>players := AList.update sock ?a (players r)\<rparr>)
                        (rooms st),
            pindex := AList.update sock ?a (pindex st),
            heap := heap st @ [newPlayer sock nm c]\<rparr>"
    by blast
  have old: "\<And>c2 r2 k a. map_of (rooms st) c2 = Some r2 \<Longrightarrow> (k, a) \<in> set (players r2) \<Longrightarrow>
      heap ?st ! a = heap st ! a"
  proof -
    fix c2 r2 k a
    assume "map_of (rooms st) c2 = Some r2" "(k, a) \<in> set (players r2)"
    then have "a < length (heap st)" using membersOk_lookup [OF wf_room [OF w]] by blast
    then show "heap ?st ! a = heap st ! a" by (simp add: eq nth_append)
  qed
  show ?thesis
  proof
    show "linked ?st"
      unfolding linked_def
    proof (intro allI impI)
      fix k a assume ka: "map_of (pindex ?st) k = Some a"
      show "\<exists>r. map_of (rooms ?st) (room (heap ?st ! a)) = Some r \<and> map_of (players r) k = Some a"
      proof (cases "k = sock")
        case True
        then have "a = ?a" using ka by (simp add: eq update_conv')
        then show ?thesis using True by (simp add: eq update_conv' newPlayer_def)
      next
        case False
        then have o: "map_of (pindex st) k = Some a" using ka by (simp add: eq update_conv')
        from linkedD [OF l o] obtain r2 where
          r2: "map_of (rooms st) (room (heap st ! a)) = Some r2" "map_of (players r2) k = Some a"
          by blast
        have a: "a < length (heap st)" using wf_index [OF w o] by simp
        show ?thesis
        proof (cases "room (heap st ! a) = c")
          case True
          then have "r2 = r" using r2(1) rm by simp
          then show ?thesis using True r2(2) a False
            by (simp add: eq update_conv' nth_append)
        next
          case ne: False
          then show ?thesis using r2 a by (simp add: eq update_conv' nth_append)
        qed
      qed
    qed
    show "roomsInv ?st"
    proof (rule roomsInv_step [OF ri, where c = c])
      show "rooms ?st = AList.update c (r\<lparr>players := AList.update sock ?a (players r)\<rparr>) (rooms st)"
        by (simp add: eq)
      have ri0: "roomInv (heap st) r" by (rule roomsInvD [OF ri rm])
      have none: "\<forall>(k, a)\<in>set (AList.update sock ?a (players r)). role (heap ?st ! a) = None"
      proof (intro ballI, clarify)
        fix k a assume "(k, a) \<in> set (AList.update sock ?a (players r))"
        then have "(k, a) = (sock, ?a) \<or> (k, a) \<in> set (players r)"
          using set_update_subset [of sock ?a "players r"] by auto
        then show "role (heap ?st ! a) = None"
        proof
          assume "(k, a) = (sock, ?a)"
          then show ?thesis by (simp add: eq newPlayer_def)
        next
          assume m: "(k, a) \<in> set (players r)"
          then have "role (heap st ! a) = None" using ri0 lob by (auto simp add: roomInv_def)
          then show ?thesis using old [OF rm m] by simp
        qed
      qed
      have len: "length (AList.update sock ?a (players r)) \<le> Suc (length (players r))"
        by (rule length_update_le)
      show "roomInv (heap ?st) (r\<lparr>players := AList.update sock ?a (players r)\<rparr>)"
        using none shadowCount_none [OF none] len lt ri0 by (simp add: roomInv_def)
    next
      fix c2 r2 k a
      assume "map_of (rooms st) c2 = Some r2" "(k, a) \<in> set (players r2)"
      from old [OF this] show "role (heap ?st ! a) = role (heap st ! a)" by simp
    qed
  qed
qed

lemma shadowCount_startGame:
  assumes "wellFormed st"
    and "map_of (pindex st) sock = Some pa"
    and "map_of (rooms st) (room (heap st ! pa)) = Some r"
    and "hostId r = sock"
    and "i < length (players r)"
  shows "shadowCount (heap (startGame sock i j st)) (players r) = 1"
  unfolding shadowCount_def
proof (rule count_one [OF assms(5)], intro allI impI)
  fix n assume n: "n < length (players r)"
  obtain k a where ka: "players r ! n = (k, a)" by (cases "players r ! n")
  have "role (heap (startGame sock i j st) ! a) = Some (if n = i then Shadow else Signal)"
    using startGame_heap_member [OF assms(1,2,3,4) n, of i j] ka by simp
  then show "(case players r ! n of (k, a) \<Rightarrow> role (heap (startGame sock i j st) ! a) = Some Shadow)
      = (n = i)"
    using ka by simp
qed

lemma inv_startGame:
  assumes w: "wellFormed st" and l: "linked st" and ri: "roomsInv st"
    and adm: "admissible st (StartGame sock i j)"
  shows "linked (startGame sock i j st) \<and> roomsInv (startGame sock i j st)"
proof (cases "callerRoom st sock = None \<or> (\<exists>r. callerRoom st sock = Some r \<and> hostId r \<noteq> sock)")
  case True
  then show ?thesis using l ri startGame_noop [OF True] by simp
next
  case False
  then obtain pa r where
    ix: "map_of (pindex st) sock = Some pa" and
    rm: "map_of (rooms st) (room (heap st ! pa)) = Some r" and host: "hostId r = sock"
    by (auto simp add: callerRoom_def split: option.splits)
  let ?st = "startGame sock i j st"
  let ?c = "room (heap st ! pa)"
  let ?res = "assignRoles i (WORD_PAIRS ! j) (map snd (players r)) 0
                    (heap st, players r, pindex st)"
  let ?r = "r\<lparr>wordPair := Some (WORD_PAIRS ! j), gameState := Assigning\<rparr>"
  note eq = startGame_effect [OF ix rm host, of i j]
  have mo: "membersOk (heap st) ?c (players r)" by (rule wf_room [OF w rm])
  have rp: "fst (snd ?res) = players r" by (rule membersOk_rp [OF mo])
  have rooms: "rooms ?st = AList.update ?c ?r (rooms st)" by (simp add: eq rp)
  have hp: "heap ?st = fst ?res" by (simp add: eq)
  have px: "pindex ?st = snd (snd ?res)" by (simp add: eq)
  have il: "i < length (players r)" by (rule admissible_index [OF w adm ix rm])
  show ?thesis
  proof
    show "linked ?st"
      unfolding linked_def
    proof (intro allI impI)
      fix k a assume "map_of (pindex ?st) k = Some a"
      then have "map_of (snd (snd ?res)) k = Some a" by (simp add: px)
      from assignRoles_ix [OF this]
      have "\<exists>r2. map_of (rooms st) (room (heap st ! a)) = Some r2 \<and> map_of (players r2) k = Some a"
      proof
        assume "map_of (pindex st) k = Some a"
        then show ?thesis by (rule linkedD [OF l])
      next
        assume "a \<in> set (map snd (players r)) \<and> pid (heap st ! a) = k"
        then obtain k2 where m: "(k2, a) \<in> set (players r)" and p: "pid (heap st ! a) = k" by auto
        from membersOk_lookup [OF mo m] p rm show ?thesis by auto
      qed
      then obtain r2 where
        r2: "map_of (rooms st) (room (heap st ! a)) = Some r2" "map_of (players r2) k = Some a"
        by blast
      have rf: "room (heap ?st ! a) = room (heap st ! a)" by (simp add: hp assignRoles_fields)
      show "\<exists>r. map_of (rooms ?st) (room (heap ?st ! a)) = Some r \<and> map_of (players r) k = Some a"
      proof (cases "room (heap st ! a) = ?c")
        case True
        then have "r2 = r" using r2(1) rm by simp
        then show ?thesis using True r2(2) by (simp add: rf rooms update_conv')
      next
        case ne: False
        then show ?thesis using r2 by (simp add: rf rooms update_conv')
      qed
    qed
    show "roomsInv ?st"
    proof (rule roomsInv_step [OF ri rooms])
      have "shadowCount (heap ?st) (players r) = 1"
        by (rule shadowCount_startGame [OF w ix rm host il])
      then show "roomInv (heap ?st) ?r"
        using roomsInvD [OF ri rm] by (simp add: roomInv_def)
    next
      fix c2 r2 k a
      assume o: "map_of (rooms st) c2 = Some r2" "c2 \<noteq> ?c" "(k, a) \<in> set (players r2)"
      have "a \<notin> set (map snd (players r))"
        by (rule other_room_addr [OF w rm o(1,2,3)])
      then show "role (heap ?st ! a) = role (heap st ! a)"
        by (simp add: hp assignRoles_other)
    qed
  qed
qed

lemma inv_playerReady:
  assumes w: "wellFormed st" and l: "linked st" and ri: "roomsInv st"
  shows "linked (playerReady sock st) \<and> roomsInv (playerReady sock st)"
proof (cases "map_of (pindex st) sock")
  case None
  then show ?thesis using l ri by (simp add: playerReady_def)
next
  case (Some pa)
  from linkedD [OF l Some] obtain r where
    rm: "map_of (rooms st) (room (heap st ! pa)) = Some r" and
    mem: "map_of (players r) sock = Some pa" by blast
  let ?st = "playerReady sock st"
  let ?c = "room (heap st ! pa)"
  let ?h = "(heap st)[pa := (heap st ! pa)\<lparr>isReady := True\<rparr>]"
  let ?r = "(if list_all (\<lambda>(k, a). isReady (?h ! a)) (players r)
           then r\<lparr>gameState := Discussion, votes := []\<rparr> else r)"
  have triv: "AList.update sock pa (players r) = players r"
    using mem by (rule update_triv)
  have eq: "?st = st\<lparr>rooms := AList.update ?c ?r (rooms st), heap := ?h\<rparr>"
    by (simp add: playerReady_effect [OF Some rm] triv)
  have roles: "\<And>a. role (heap ?st ! a) = role (heap st ! a)"
    by (simp add: eq nth_upd)
  show ?thesis
  proof
    show "linked ?st"
      by (rule linked_keep [OF l _ _ _ rm, where r' = ?r])
         (simp_all add: eq nth_upd)
    show "roomsInv ?st"
    proof (rule roomsInv_step [OF ri, where c = ?c and r' = ?r])
      show "rooms ?st = AList.update ?c ?r (rooms st)" by (simp add: eq)
      show "roomInv (heap ?st) ?r"
        by (rule roomInv_cong [OF roomsInvD [OF ri rm]]) (simp_all add: roles)
    next
      fix c2 r2 k a
      show "role (heap ?st ! a) = role (heap st ! a)" by (rule roles)
    qed
  qed
qed

lemma inv_submitVote:
  assumes w: "wellFormed st" and l: "linked st" and ri: "roomsInv st"
  shows "linked (submitVote sock t st) \<and> roomsInv (submitVote sock t st)"
proof (cases "map_of (pindex st) sock")
  case None
  then show ?thesis using l ri by (simp add: submitVote_def)
next
  case (Some pa)
  from linkedD [OF l Some] obtain r where
    rm: "map_of (rooms st) (room (heap st ! pa)) = Some r" by blast
  show ?thesis
  proof (cases "gameState r = Discussion")
    case False
    then show ?thesis using l ri Some rm by (simp add: submitVote_def)
  next
    case True
    let ?st = "submitVote sock t st"
    let ?c = "room (heap st ! pa)"
    let ?r1 = "r\<lparr>votes := AList.update sock t (votes r), gameState := Results\<rparr>"
    let ?r = "(if length (AList.update sock t (votes r)) = length (players r)
               then snd (calculateResults (heap st) ?r1)
               else r\<lparr>votes := AList.update sock t (votes r)\<rparr>)"
    have rooms: "rooms ?st = AList.update ?c ?r (rooms st)"
      by (simp add: submitVote_effect [OF Some rm True])
    have px: "pindex ?st = pindex st"
      by (simp add: submitVote_effect [OF Some rm True])
    have fields: "\<And>a. role (heap ?st ! a) = role (heap st ! a)
                     \<and> room (heap ?st ! a) = room (heap st ! a)"
      by (simp add: submitVote_effect [OF Some rm True] calculateResults_fst updateScores_fields)
    have pl: "players ?r = players r" "maxPlayers ?r = maxPlayers r"
      "gameState ?r = Lobby \<longrightarrow> gameState r = Lobby"
      using True by simp_all
    show ?thesis
    proof
      show "linked ?st"
        by (rule linked_keep [OF l px _ rooms rm pl(1)]) (simp add: fields)
      show "roomsInv ?st"
      proof (rule roomsInv_step [OF ri rooms])
        show "roomInv (heap ?st) ?r"
          by (rule roomInv_cong [OF roomsInvD [OF ri rm] pl]) (simp add: fields)
      next
        fix c2 r2 k a
        show "role (heap ?st ! a) = role (heap st ! a)" by (simp add: fields)
      qed
    qed
  qed
qed

lemma inv_nextRound:
  assumes w: "wellFormed st" and l: "linked st" and ri: "roomsInv st"
  shows "linked (nextRound sock st) \<and> roomsInv (nextRound sock st)"
proof (cases "map_of (pindex st) sock")
  case None
  then show ?thesis using l ri by (simp add: nextRound_def)
next
  case (Some pa)
  from linkedD [OF l Some] obtain r where
    rm: "map_of (rooms st) (room (heap st ! pa)) = Some r" by blast
  show ?thesis
  proof (cases "hostId r = sock")
    case False
    then show ?thesis using l ri Some rm by (simp add: nextRound_def)
  next
    case True
    let ?st = "nextRound sock st"
    let ?c = "room (heap st ! pa)"
    let ?r = "r\<lparr>round := round r + 1, gameState := Lobby, revealedPlayers := [], votes := []\<rparr>"
    note eq = nextRound_effect [OF Some rm True]
    have mo: "membersOk (heap st) ?c (players r)" by (rule wf_room [OF w rm])
    have none: "\<forall>(k, a)\<in>set (players r). role (heap ?st ! a) = None"
    proof (intro ballI, clarify)
      fix k a assume m: "(k, a) \<in> set (players r)"
      then have "a \<in> set (map snd (players r))" by force
      moreover have "a < length (heap st)" using membersOk_lookup [OF mo m] by simp
      ultimately show "role (heap ?st ! a) = None"
        by (simp add: eq resetPlayers_member)
    qed
    show ?thesis
    proof
      show "linked ?st"
        by (rule linked_keep [OF l _ _ _ rm, where r' = ?r])
           (simp_all add: eq resetPlayers_fields)
      show "roomsInv ?st"
      proof (rule roomsInv_step [OF ri, where c = ?c and r' = ?r])
        show "rooms ?st = AList.update ?c ?r (rooms st)" by (simp add: eq)
        show "roomInv (heap ?st) ?r"
          using none shadowCount_none [OF none] roomsInvD [OF ri rm]
          by (simp add: roomInv_def)
      next
        fix c2 r2 k a
        assume o: "map_of (rooms st) c2 = Some r2" "c2 \<noteq> ?c" "(k, a) \<in> set (players r2)"
        have "a \<notin> set (map snd (players r))"
          by (rule other_room_addr [OF w rm o(1,2,3)])
        then show "role (heap ?st ! a) = role (heap st ! a)"
          by (simp add: eq resetPlayers_other)
      qed
    qed
  qed
qed

lemma inv_revealRole:
  assumes w: "wellFormed st" and l: "linked st" and ri: "roomsInv st"
  shows "linked (revealRole sock t st) \<and> roomsInv (revealRole sock t st)"
proof (cases "map_of (pindex st) sock")
  case None
  then show ?thesis using l ri by (simp add: revealRole_def)
next
  case (Some pa)
  from linkedD [OF l Some] obtain r where
    rm: "map_of (rooms st) (room (heap st ! pa)) = Some r" by blast
  show ?thesis
  proof (cases "hostId r = sock")
    case False
    then show ?thesis using l ri Some rm by (simp add: revealRole_def)
  next
    case True
    let ?st = "revealRole sock t st"
    let ?c = "room (heap st ! pa)"
    let ?r = "r\<lparr>revealedPlayers := set_add t (revealedPlayers r)\<rparr>"
    note eq = revealRole_effect [OF Some rm True]
    show ?thesis
    proof
      show "linked ?st"
        by (rule linked_keep [OF l _ _ _ rm, where r' = ?r]) (simp_all add: eq)
      show "roomsInv ?st"
      proof (rule roomsInv_step [OF ri, where c = ?c and r' = ?r])
        show "rooms ?st = AList.update ?c ?r (rooms st)" by (simp add: eq)
        show "roomInv (heap ?st) ?r"
          by (rule roomInv_cong [OF roomsInvD [OF ri rm]]) (simp_all add: eq)
      next
        fix c2 r2 k a
        show "role (heap ?st ! a) = role (heap st ! a)" by (simp add: eq)
      qed
    qed
  qed
qed

lemma inv_leaveRoom:
  assumes w: "wellFormed st" and l: "linked st" and ri: "roomsInv st"
  shows "linked (leaveRoom sock st) \<and> roomsInv (leaveRoom sock st)"
proof (cases "map_of (pindex st) sock")
  case None
  then show ?thesis using l ri by (simp add: leaveRoom_def)
next
  case (Some pa)
  from linkedD [OF l Some] obtain r where
    rm: "map_of (rooms st) (room (heap st ! pa)) = Some r" by blast
  let ?st = "leaveRoom sock st"
  let ?c = "room (heap st ! pa)"
  show ?thesis
  proof (cases "AList.delete sock (players r)")
    case Nil
    note eq = leaveRoom_last [OF Some rm Nil]
    show ?thesis
    proof
      show "linked ?st"
        unfolding linked_def
      proof (intro allI impI)
        fix k a assume ka: "map_of (pindex ?st) k = Some a"
        then have ne: "k \<noteq> sock" by (auto simp add: eq delete_conv')
        then have o: "map_of (pindex st) k = Some a" using ka by (simp add: eq delete_conv')
        from linkedD [OF l o] obtain r2 where
          r2: "map_of (rooms st) (room (heap st ! a)) = Some r2" "map_of (players r2) k = Some a"
          by blast
        have "room (heap st ! a) \<noteq> ?c"
        proof
          assume "room (heap st ! a) = ?c"
          then have "r2 = r" using r2(1) rm by simp
          then have "map_of (AList.delete sock (players r)) k = Some a"
            using r2(2) ne by (simp add: delete_conv')
          then show False using Nil by simp
        qed
        then show "\<exists>r. map_of (rooms ?st) (room (heap ?st ! a)) = Some r
                       \<and> map_of (players r) k = Some a"
          using r2 by (simp add: eq delete_conv')
      qed
      show "roomsInv ?st"
        unfolding roomsInv_def
      proof (intro allI impI)
        fix c2 r2 assume "map_of (rooms ?st) c2 = Some r2"
        then have "map_of (rooms st) c2 = Some r2"
          by (simp add: eq delete_conv' split: if_splits)
        then show "roomInv (heap ?st) r2" using roomsInvD [OF ri] by (simp add: eq)
      qed
    qed
  next
    case (Cons ka rest)
    obtain k0 a0 where ka: "ka = (k0, a0)" by (cases ka)
    have d: "AList.delete sock (players r) = (k0, a0) # rest" using Cons ka by simp
    let ?r = "r\<lparr>players := AList.delete sock (players r),
                hostId := (if hostId r = sock then k0 else hostId r)\<rparr>"
    note eq = leaveRoom_rest [OF Some rm d]
    show ?thesis
    proof
      show "linked ?st"
        unfolding linked_def
      proof (intro allI impI)
        fix k a assume ka: "map_of (pindex ?st) k = Some a"
        then have ne: "k \<noteq> sock" by (auto simp add: eq delete_conv')
        then have o: "map_of (pindex st) k = Some a" using ka by (simp add: eq delete_conv')
        from linkedD [OF l o] obtain r2 where
          r2: "map_of (rooms st) (room (heap st ! a)) = Some r2" "map_of (players r2) k = Some a"
          by blast
        show "\<exists>r. map_of (rooms ?st) (room (heap ?st ! a)) = Some r
                       \<and> map_of (players r) k = Some a"
        proof (cases "room (heap st ! a) = ?c")
          case True
          then have "r2 = r" using r2(1) rm by simp
          then show ?thesis using True r2(2) ne by (simp add: eq update_conv' delete_conv')
        next
          case False
          then show ?thesis using r2 by (simp add: eq update_conv')
        qed
      qed
      show "roomsInv ?st"
      proof (rule roomsInv_step [OF ri, where c = ?c and r' = ?r])
        show "rooms ?st = AList.update ?c ?r (rooms st)" by (simp add: eq)
        have r0: "roomInv (heap st) r" by (rule roomsInvD [OF ri rm])
        have sub: "set (AList.delete sock (players r)) \<subseteq> set (players r)"
          by (rule set_delete_subset)
        have lo: "gameState r = Lobby \<longrightarrow>
            (\<forall>(k, a)\<in>set (AList.delete sock (players r)). role (heap st ! a) = None)"
          using r0 sub by (fastforce simp add: roomInv_def)
        have le: "length (AList.delete sock (players r)) \<le> maxPlayers r"
          using r0 length_delete_le [of sock "players r"] by (simp add: roomInv_def)
        have sc: "shadowCount (heap st) (AList.delete sock (players r)) \<le> 1"
          using r0 shadowCount_delete [of "heap st" sock "players r"] by (simp add: roomInv_def)
        show "roomInv (heap ?st) ?r"
          using lo le sc r0 by (simp add: roomInv_def eq)
      next
        fix c2 r2 k a
        show "role (heap ?st ! a) = role (heap st ! a)" by (simp add: eq)
      qed
    qed
  qed
qed

lemma reachableFresh_reachable: "reachableFresh st \<Longrightarrow> reachable st"
  by (induction rule: reachableFresh.induct) (auto intro: reachable.intros)

lemma inv_step:
  assumes "wellFormed st" "linked st" "roomsInv st" "admissible st e" "freshCode st e"
  shows "linked (step e st) \<and> roomsInv (step e st)"
proof (cases e)
  case (CreateRoom sock c nm)
  then show ?thesis using inv_createRoom [OF assms(1,2,3)] assms(5) by simp
next
  case (JoinRoom sock c nm)
  then show ?thesis using inv_joinRoom [OF assms(1,2,3)] by simp
next
  case (StartGame sock i j)
  then show ?thesis using inv_startGame [OF assms(1,2,3)] assms(4) by simp
next
  case (PlayerReady sock)
  then show ?thesis using inv_playerReady [OF assms(1,2,3)] by simp
next
  case (SubmitVote sock t)
  then show ?thesis using inv_submitVote [OF assms(1,2,3)] by simp
next
  case (NextRound sock)
  then show ?thesis using inv_nextRound [OF assms(1,2,3)] by simp
next
  case (RevealRole sock t)
  then show ?thesis using inv_revealRole [OF assms(1,2,3)] by simp
next
  case (LeaveRoom sock)
  then show ?thesis using inv_leaveRoom [OF assms(1,2,3)] by simp
next
  case (Disconnect sock)
  then show ?thesis using inv_leaveRoom [OF assms(1,2,3)] by (simp add: disconnect_leaveRoom)
qed

lemma reachableFresh_inv: "reachableFresh st \<Longrightarrow> linked st \<and> roomsInv st"
proof (induction rule: reachableFresh.induct)
  case fresh_init
  show ?case by (simp add: linked_def roomsInv_def init_def)
next
  case (fresh_step st e)
  have "wellFormed st" by (rule reachable_wf [OF reachableFresh_reachable [OF fresh_step.hyps(1)]])
  then show ?case using fresh_step.IH fresh_step.hyps(2,3) by (intro inv_step) simp_all
qed

lemma reachableFresh_run:
  "reachableFresh st \<Longrightarrow> admissibleRun es st \<Longrightarrow> freshRun es st \<Longrightarrow> reachableFresh (run es st)"
  by (induction es arbitrary: st) (auto intro: fresh_step)

lemma fresh_examples:
  "reachableFresh ex_created" "reachableFresh ex_lobby" "reachableFresh ex_assigning"
  "reachableFresh ex_two_ready" "reachableFresh ex_discussion" "reachableFresh ex_two_votes"
  "reachableFresh ex_results" "reachableFresh ex_next" "reachableFresh ex_full"
  "reachableFresh ex_shadow_left"
proof -
  show a: "reachableFresh ex_created"
    unfolding ex_created_def by (rule reachableFresh_run [OF fresh_init]) (simp_all add: init_def)
  show b: "reachableFresh ex_lobby"
    unfolding ex_lobby_def by (rule reachableFresh_run [OF a]) simp_all
  show c: "reachableFresh ex_assigning"
    unfolding ex_assigning_def
    by (rule reachableFresh_run [OF b]) (simp_all add: ex_defs handler_defs)
  show d: "reachableFresh ex_two_ready"
    unfolding ex_two_ready_def by (rule reachableFresh_run [OF c]) simp_all
  show e: "reachableFresh ex_discussion"
    unfolding ex_discussion_def by (rule reachableFresh_run [OF d]) simp_all
  show f: "reachableFresh ex_two_votes"
    unfolding ex_two_votes_def by (rule reachableFresh_run [OF e]) simp_all
  show g: "reachableFresh ex_results"
    unfolding ex_results_def by (rule reachableFresh_run [OF f]) simp_all
  show "reachableFresh ex_next"
    unfolding ex_next_def by (rule reachableFresh_run [OF g]) simp_all
  show "reachableFresh ex_full"
    unfolding ex_full_def by (rule reachableFresh_run [OF b]) simp_all
  show "reachableFresh ex_shadow_left"
    unfolding ex_shadow_left_def by (rule reachableFresh_run [OF c]) simp_all
qed

lemma reachable_collisions: "reachable ex_collision" "reachable ex_overfull"
proof -
  show "reachable ex_collision"
    unfolding ex_collision_def
    by (rule reachable_run [OF reachable_examples(2)]) (simp add: ex_defs handler_defs)
  show "reachable ex_overfull"
    unfolding ex_overfull_def by (rule reachable_run [OF reachable_examples(1)]) simp
qed

section \<open>Capacity\<close>

text \<open>
  Claim C9, as the code has it. In every state reachable by a run in which each
  \<open>createRoom\<close> draws a code that is not registered at that moment, the size of every
  registered room is at most its capacity, and the capacity is 6. In every state,
  \<open>joinRoom\<close> on a room whose size has reached its capacity answers \<open>RoomFull\<close> and
  changes nothing.
\<close>

theorem capacity_without_collision:
  "(\<forall>r. reachableFresh st \<and> map_of (rooms st) c = Some r \<longrightarrow>
       length (players r) \<le> maxPlayers r \<and> maxPlayers r = 6)
 \<and> (\<forall>r. map_of (rooms st) c = Some r \<and> maxPlayers r \<le> length (players r) \<longrightarrow>
       joinRoom sock c nm st = (Some RoomFull, st))"
proof (intro conjI allI impI; (elim conjE)?)
  fix r assume "reachableFresh st" "map_of (rooms st) c = Some r"
  then have "roomInv (heap st) r"
    using reachableFresh_inv [of st] by (simp add: roomsInvD)
  then show "length (players r) \<le> maxPlayers r" "maxPlayers r = 6"
    by (simp_all add: roomInv_def)
next
  fix r assume "map_of (rooms st) c = Some r" "maxPlayers r \<le> length (players r)"
  then show "joinRoom sock c nm st = (Some RoomFull, st)" by (simp add: joinRoom_def)
qed

text \<open>The example room with six members is full.\<close>

theorem capacity_without_collision_witness:
  "reachableFresh ex_full
 \<and> map_of (rooms ex_full) ''R'' = Some (snd (hd (rooms ex_full)))
 \<and> length (players (snd (hd (rooms ex_full)))) = 6
 \<and> maxPlayers (snd (hd (rooms ex_full))) = 6
 \<and> joinRoom ''g'' ''R'' ''Gus'' ex_full = (Some RoomFull, ex_full)"
proof -
  have h: "map_of (rooms ex_full) ''R'' = Some (snd (hd (rooms ex_full)))"
    "length (players (snd (hd (rooms ex_full)))) = 6"
    by (simp_all add: ex_defs handler_defs)
  note t = capacity_without_collision [of ex_full "''R''" "''g''" "''Gus''"]
  have m: "maxPlayers (snd (hd (rooms ex_full))) = 6"
    using t [THEN conjunct1, rule_format, of "snd (hd (rooms ex_full))"] fresh_examples(9) h(1)
    by simp
  have j: "joinRoom ''g'' ''R'' ''Gus'' ex_full = (Some RoomFull, ex_full)"
    using t [THEN conjunct2, rule_format, of "snd (hd (rooms ex_full))"] h m by simp
  show ?thesis using fresh_examples(9) h m j by simp
qed

text \<open>Claim C9 as stated fails: \<open>createRoom\<close> does not check the generated code, and
  \<open>playerReady\<close> stores the caller in the room registered under the caller's code
  without looking at its size. After Gus's room has replaced Ann's under the code \<open>R\<close>
  and has filled up, Ann's \<open>playerReady\<close> makes her its seventh member.\<close>

theorem capacity_collision_counterexample:
  "reachable ex_overfull
 \<and> roomSummary ex_overfull
     = [(''R'', ''g'', Lobby,
         [(''g'', 1), (''h'', 2), (''i'', 3), (''j'', 4), (''k'', 5), (''l'', 6), (''a'', 0)])]
 \<and> map (maxPlayers \<circ> snd) (rooms ex_overfull) = [6]
 \<and> map (length \<circ> players \<circ> snd) (rooms ex_overfull) = [7]"
proof -
  have "roomSummary ex_overfull
     = [(''R'', ''g'', Lobby,
         [(''g'', 1), (''h'', 2), (''i'', 3), (''j'', 4), (''k'', 5), (''l'', 6), (''a'', 0)])]
 \<and> map (maxPlayers \<circ> snd) (rooms ex_overfull) = [6]
 \<and> map (length \<circ> players \<circ> snd) (rooms ex_overfull) = [7]"
    by (simp add: ex_overfull_def ex_defs handler_defs)
  then show ?thesis using reachable_collisions(2) by simp
qed

section \<open>Roles\<close>

text \<open>
  Claim C1, as the code has it. In every state reachable by a collision-free run, at
  most one member of a registered room holds the odd role, and no member of a room in
  the lobby holds any role. In every reachable state, a \<open>startGame\<close> that passes its
  guard leaves the caller's room in phase \<open>assigning\<close> with exactly one member holding
  the odd role. Exactly one is not an invariant of the later phases: nothing is done
  when the holder of the odd role leaves.
\<close>

theorem roles_without_collision:
  "(\<forall>r. reachableFresh st \<and> map_of (rooms st) c = Some r \<longrightarrow>
       shadowCount (heap st) (players r) \<le> 1
     \<and> (gameState r = Lobby \<longrightarrow> (\<forall>(k, a)\<in>set (players r). role (heap st ! a) = None)))
 \<and> (\<forall>pa r. reachable st \<and> admissible st (StartGame sock i j)
        \<and> map_of (pindex st) sock = Some pa
        \<and> map_of (rooms st) (room (heap st ! pa)) = Some r \<and> hostId r = sock \<longrightarrow>
       (\<exists>r'. map_of (rooms (startGame sock i j st)) (room (heap st ! pa)) = Some r'
          \<and> gameState r' = Assigning \<and> players r' = players r
          \<and> shadowCount (heap (startGame sock i j st)) (players r') = 1))"
proof (intro conjI allI impI; (elim conjE)?)
  fix r assume "reachableFresh st" "map_of (rooms st) c = Some r"
  then have ri: "roomInv (heap st) r"
    using reachableFresh_inv [of st] by (simp add: roomsInvD)
  show "shadowCount (heap st) (players r) \<le> 1" using ri by (simp add: roomInv_def)
  show "gameState r = Lobby \<Longrightarrow> \<forall>(k, a)\<in>set (players r). role (heap st ! a) = None"
    using ri by (simp add: roomInv_def)
next
  fix pa r
  assume a: "reachable st" "admissible st (StartGame sock i j)"
    "map_of (pindex st) sock = Some pa"
    "map_of (rooms st) (room (heap st ! pa)) = Some r" "hostId r = sock"
  note w = reachable_wf [OF a(1)]
  have "shadowCount (heap (startGame sock i j st)) (players r) = 1"
    by (rule shadowCount_startGame [OF w a(3,4,5) admissible_index [OF w a(2,3,4)]])
  then show "\<exists>r'. map_of (rooms (startGame sock i j st)) (room (heap st ! pa)) = Some r'
          \<and> gameState r' = Assigning \<and> players r' = players r
          \<and> shadowCount (heap (startGame sock i j st)) (players r') = 1"
    by (simp add: startGame_room [OF w a(3,4,5)])
qed

text \<open>In the example: nobody holds a role after the round has been advanced, the room in
  phase \<open>results\<close> has at most one odd-role holder, and the start gives exactly one.\<close>

theorem roles_without_collision_witness:
  "reachableFresh ex_next
 \<and> map_of (rooms ex_next) ''R'' = Some (snd (hd (rooms ex_next)))
 \<and> gameState (snd (hd (rooms ex_next))) = Lobby
 \<and> players (snd (hd (rooms ex_next))) = [(''a'', 0), (''b'', 1), (''c'', 2)]
 \<and> role (heap ex_next ! 0) = None \<and> role (heap ex_next ! 1) = None
 \<and> role (heap ex_next ! 2) = None
 \<and> reachableFresh ex_results
 \<and> map_of (rooms ex_results) ''R'' = Some (snd (hd (rooms ex_results)))
 \<and> shadowCount (heap ex_results) (players (snd (hd (rooms ex_results)))) \<le> 1
 \<and> reachable ex_lobby \<and> admissible ex_lobby (StartGame ''a'' 1 0)
 \<and> map_of (pindex ex_lobby) ''a'' = Some 0
 \<and> map_of (rooms ex_lobby) (room (heap ex_lobby ! 0)) = Some (snd (hd (rooms ex_lobby)))
 \<and> hostId (snd (hd (rooms ex_lobby))) = ''a''
 \<and> roomSummary (startGame ''a'' 1 0 ex_lobby)
      = [(''R'', ''a'', Assigning, [(''a'', 0), (''b'', 1), (''c'', 2)])]
 \<and> shadowCount (heap (startGame ''a'' 1 0 ex_lobby)) [(''a'', 0), (''b'', 1), (''c'', 2)] = 1"
proof -
  have n: "map_of (rooms ex_next) ''R'' = Some (snd (hd (rooms ex_next)))"
    "gameState (snd (hd (rooms ex_next))) = Lobby"
    "players (snd (hd (rooms ex_next))) = [(''a'', 0), (''b'', 1), (''c'', 2)]"
    by (simp_all add: ex_defs handler_defs)
  have rs: "map_of (rooms ex_results) ''R'' = Some (snd (hd (rooms ex_results)))"
    by (simp add: ex_defs handler_defs)
  have h: "admissible ex_lobby (StartGame ''a'' 1 0)"
    "map_of (pindex ex_lobby) ''a'' = Some 0"
    "map_of (rooms ex_lobby) (room (heap ex_lobby ! 0)) = Some (snd (hd (rooms ex_lobby)))"
    "hostId (snd (hd (rooms ex_lobby))) = ''a''"
    by (simp_all add: ex_defs handler_defs)
  have v: "roomSummary (startGame ''a'' 1 0 ex_lobby)
      = [(''R'', ''a'', Assigning, [(''a'', 0), (''b'', 1), (''c'', 2)])]"
    "players (snd (hd (rooms ex_lobby))) = [(''a'', 0), (''b'', 1), (''c'', 2)]"
    by (simp_all add: ex_defs handler_defs)
  note t1 = roles_without_collision [of ex_next "''R''", THEN conjunct1, rule_format,
      of "snd (hd (rooms ex_next))"]
  note t2 = roles_without_collision [of ex_results "''R''", THEN conjunct1, rule_format,
      of "snd (hd (rooms ex_results))"]
  note t3 = roles_without_collision [of ex_lobby _ "''a''" 1 0, THEN conjunct2, rule_format,
      of 0 "snd (hd (rooms ex_lobby))"]
  have lob: "\<forall>(k, a)\<in>set [(''a'', 0::nat), (''b'', 1), (''c'', 2)]. role (heap ex_next ! a) = None"
    using t1 fresh_examples(8) n by simp
  have c1: "shadowCount (heap ex_results) (players (snd (hd (rooms ex_results)))) \<le> 1"
    using t2 fresh_examples(7) rs by simp
  have c2: "shadowCount (heap (startGame ''a'' 1 0 ex_lobby)) [(''a'', 0), (''b'', 1), (''c'', 2)] = 1"
    using t3 reachable_examples(2) h by (auto simp add: v(2))
  show ?thesis
    using fresh_examples(7,8) reachable_examples(2) n rs h v(1) lob c1 c2 by simp
qed

text \<open>Claim C1 as stated fails: after Bob, the odd-role holder, has left, the room is
  still in phase \<open>assigning\<close> and its two members both hold the common role. With a
  code collision the lobby part fails as well: Ann, holding the odd role of the replaced
  room, becomes a member of Dee's room, which is in the lobby.\<close>

theorem shadow_leaves_counterexample:
  "reachableFresh ex_shadow_left
 \<and> roomSummary ex_assigning = [(''R'', ''a'', Assigning, [(''a'', 0), (''b'', 1), (''c'', 2)])]
 \<and> map role (heap ex_assigning) = [Some Signal, Some Shadow, Some Signal]
 \<and> roomSummary ex_shadow_left = [(''R'', ''a'', Assigning, [(''a'', 0), (''c'', 2)])]
 \<and> role (heap ex_shadow_left ! 0) = Some Signal
 \<and> role (heap ex_shadow_left ! 2) = Some Signal
 \<and> shadowCount (heap ex_shadow_left) [(''a'', 0), (''c'', 2)] = 0
 \<and> reachable ex_collision
 \<and> roomSummary ex_collision = [(''R'', ''d'', Lobby, [(''d'', 3), (''a'', 0)])]
 \<and> role (heap ex_collision ! 0) = Some Shadow"
proof -
  have "roomSummary ex_assigning = [(''R'', ''a'', Assigning, [(''a'', 0), (''b'', 1), (''c'', 2)])]
 \<and> map role (heap ex_assigning) = [Some Signal, Some Shadow, Some Signal]
 \<and> roomSummary ex_shadow_left = [(''R'', ''a'', Assigning, [(''a'', 0), (''c'', 2)])]
 \<and> role (heap ex_shadow_left ! 0) = Some Signal
 \<and> role (heap ex_shadow_left ! 2) = Some Signal
 \<and> shadowCount (heap ex_shadow_left) [(''a'', 0), (''c'', 2)] = 0
 \<and> roomSummary ex_collision = [(''R'', ''d'', Lobby, [(''d'', 3), (''a'', 0)])]
 \<and> role (heap ex_collision ! 0) = Some Shadow"
    by (simp add: ex_shadow_left_def ex_collision_def shadowCount_def ex_defs handler_defs)
  then show ?thesis using fresh_examples(10) reachable_collisions(1) by simp
qed

section \<open>Further runs\<close>


lemma fresh_ghost: "reachableFresh ex_ghost"
  unfolding ex_ghost_def
  by (rule reachableFresh_run [OF fresh_examples(2)]) (simp_all add: ex_defs handler_defs)

lemma reachable_stale: "reachable ex_stale"
  unfolding ex_stale_def by (rule reachable_run [OF reachable_examples(2)]) simp


text \<open>Claim C6 as stated fails: the caller is not removed from both structures in every
  state. After Ann has created the second room, her disconnect removes her from the
  index and deletes that room, and she stays a member and the host of \<open>R\<close>. When no room
  is registered under the code in Ann's object, her disconnect changes nothing and she
  stays in the index.\<close>

theorem departure_counterexample:
  "reachableFresh ex_ghost
 \<and> roomSummary ex_ghost
      = [(''R'', ''a'', Lobby, [(''a'', 0), (''b'', 1), (''c'', 2)]),
         (''I'', ''a'', Lobby, [(''a'', 3)])]
 \<and> map_of (pindex ex_ghost) ''a'' = Some 3
 \<and> roomSummary (disconnect ''a'' ex_ghost)
      = [(''R'', ''a'', Lobby, [(''a'', 0), (''b'', 1), (''c'', 2)])]
 \<and> map_of (pindex (disconnect ''a'' ex_ghost)) ''a'' = None
 \<and> reachable ex_stale
 \<and> roomSummary ex_stale = []
 \<and> map_of (pindex ex_stale) ''a'' = Some 0
 \<and> roomSummary (disconnect ''a'' ex_stale) = []
 \<and> map_of (pindex (disconnect ''a'' ex_stale)) ''a'' = Some 0"
proof -
  have "roomSummary ex_ghost
      = [(''R'', ''a'', Lobby, [(''a'', 0), (''b'', 1), (''c'', 2)]),
         (''I'', ''a'', Lobby, [(''a'', 3)])]
 \<and> map_of (pindex ex_ghost) ''a'' = Some 3
 \<and> roomSummary (disconnect ''a'' ex_ghost)
      = [(''R'', ''a'', Lobby, [(''a'', 0), (''b'', 1), (''c'', 2)])]
 \<and> map_of (pindex (disconnect ''a'' ex_ghost)) ''a'' = None"
    by (simp add: ex_ghost_def ex_defs handler_defs)
  moreover have "roomSummary ex_stale = []
 \<and> map_of (pindex ex_stale) ''a'' = Some 0
 \<and> roomSummary (disconnect ''a'' ex_stale) = []
 \<and> map_of (pindex (disconnect ''a'' ex_stale)) ''a'' = Some 0"
    by (simp add: ex_stale_def ex_defs handler_defs)
  ultimately show ?thesis using fresh_ghost reachable_stale by simp
qed

end
